theory Spec2Isabelle
  imports Main
begin

section \<open>Go strings as byte lists\<close>

text \<open>
  A Go \<^verbatim>\<open>string\<close> is a sequence of bytes; it is modelled as a \<^typ>\<open>string\<close>
  (a list of 8-bit characters). The library functions of package \<^verbatim>\<open>strings\<close> that the
  repository calls are written out here, for the separators the repository passes
  (always a single byte).
\<close>

text \<open>\<^verbatim>\<open>strings.HasPrefix(s, prefix)\<close>:
  \<^verbatim>\<open>len(s) >= len(prefix) && s[:len(prefix)] == prefix\<close>.\<close>

definition HasPrefix :: "string \<Rightarrow> string \<Rightarrow> bool" where
  "HasPrefix s pre = (length pre \<le> length s \<and> take (length pre) s = pre)"

text \<open>\<^verbatim>\<open>strings.HasSuffix(s, suffix)\<close>:
  \<^verbatim>\<open>len(s) >= len(suffix) && s[len(s)-len(suffix):] == suffix\<close>.\<close>

definition HasSuffix :: "string \<Rightarrow> string \<Rightarrow> bool" where
  "HasSuffix s suf = (length suf \<le> length s \<and> drop (length s - length suf) s = suf)"

text \<open>\<^verbatim>\<open>strings.Split(s, sep)\<close> for a one-byte separator: the pieces between the
  occurrences of the separator, in order; an input without separator (also the empty
  string) gives the one-element list holding the input.\<close>

fun Split :: "char \<Rightarrow> string \<Rightarrow> string list" where
  "Split sep [] = [[]]"
| "Split sep (c # cs) =
     (if c = sep then [] # Split sep cs
      else (case Split sep cs of
              p # ps \<Rightarrow> (c # p) # ps
            | [] \<Rightarrow> [[c]]))"

text \<open>The inverse of \<open>Split\<close>, used to state what a split says about its input:
  the pieces joined by the separator.\<close>

fun Join :: "char \<Rightarrow> string list \<Rightarrow> string" where
  "Join c [] = []"
| "Join c [p] = p"
| "Join c (p # q # ps) = p @ c # Join c (q # ps)"

section \<open>Key gateway: the ARN to transit key mapping\<close>

text \<open>
  \<^verbatim>\<open>ARNToVaultKey\<close> (vault client) and \<^verbatim>\<open>arnToVaultKey\<close> (the single-file revision) have
  the same body. Go returns a pair \<^verbatim>\<open>(string, error)\<close>; the four \<^verbatim>\<open>fmt.Errorf\<close> messages are
  the constructors of \<open>arn_error\<close>, each carrying the offending ARN where the message
  prints it. The receiver is not read, so it is no argument of the model.
\<close>

datatype arn_error =
    KeyARNRequired
  | InvalidARNFormat string
  | Expected6Parts string
  | InvalidKeyFormat string
  | MissingComponents string

definition ARNToVaultKey :: "string \<Rightarrow> string \<times> arn_error option" where
  "ARNToVaultKey arn =
     (if arn = [] then ('''', Some KeyARNRequired)
      else if \<not> HasPrefix arn ''arn:aws:kms:'' then ('''', Some (InvalidARNFormat arn))
      else
        let parts = Split CHR '':'' arn in
        if length parts \<noteq> 6 then ('''', Some (Expected6Parts arn))
        else
          let region = parts ! 3;
              account = parts ! 4;
              keyPart = parts ! 5;
              keyParts = Split CHR ''/'' keyPart in
          if length keyParts \<noteq> 2 \<or> keyParts ! 0 \<noteq> ''key''
          then ('''', Some (InvalidKeyFormat arn))
          else
            let keyUUID = keyParts ! 1 in
            if region = [] \<or> account = [] \<or> keyUUID = []
            then ('''', Some (MissingComponents arn))
            else (region @ ''_'' @ account @ ''_'' @ keyUUID, None))"

text \<open>The reference mapping, in the words of the specification: an ARN of the form
  \<^verbatim>\<open>arn:aws:kms:R:A:key/U\<close> with exactly six colon-delimited parts (so \<open>R\<close>, \<open>A\<close> and \<open>U\<close>
  hold no colon), a last part of exactly two slash-delimited pieces (so \<open>U\<close> holds no
  slash), and \<open>R\<close>, \<open>A\<close>, \<open>U\<close> non-empty.\<close>

definition kms_key_arn :: "string \<Rightarrow> string \<Rightarrow> string \<Rightarrow> string \<Rightarrow> bool" where
  "kms_key_arn arn R A U =
     (arn = ''arn:aws:kms:'' @ R @ '':'' @ A @ '':key/'' @ U \<and>
      R \<noteq> [] \<and> A \<noteq> [] \<and> U \<noteq> [] \<and>
      CHR '':'' \<notin> set R \<and> CHR '':'' \<notin> set A \<and> CHR '':'' \<notin> set U \<and>
      CHR ''/'' \<notin> set U)"

section \<open>Forwarding core: building the outbound request\<close>

subsection \<open>Library functions the client calls\<close>

text \<open>ASCII letters by their byte value.\<close>

definition isUpperASCII :: "char \<Rightarrow> bool" where
  "isUpperASCII c = (65 \<le> (of_char c :: nat) \<and> (of_char c :: nat) \<le> 90)"

text \<open>The byte value of the lower-case form of a byte: an upper-case ASCII letter
  moves by 32, every other byte stays.\<close>

definition lowerASCII :: "char \<Rightarrow> nat" where
  "lowerASCII c = (if isUpperASCII c then of_char c + 32 else of_char c)"

text \<open>
  \<^verbatim>\<open>strings.EqualFold(s, t)\<close> compares the two strings rune by rune under simple Unicode
  case folding. The repository only passes ASCII constants as \<open>t\<close> (\<^verbatim>\<open>"host"\<close> and the
  names of the deny-list), and the model is for such a \<open>t\<close>: an ASCII byte of \<open>s\<close> matches
  the byte of \<open>t\<close> that is the same letter in either case; the only other runes whose
  folding orbit reaches ASCII are U+212A (Kelvin sign, bytes 226 132 170, folds to k,
  byte 107) and U+017F (long s, bytes 197 191, folds to s, byte 115); any other byte of
  \<open>s\<close> matches nothing.
\<close>

function EqualFold :: "string \<Rightarrow> string \<Rightarrow> bool" where
  "EqualFold [] t = (t = [])"
| "EqualFold (c # cs) [] = False"
| "EqualFold (c # cs) (d # ds) =
     (if (of_char c :: nat) < 128 then lowerASCII c = lowerASCII d \<and> EqualFold cs ds
      else if (of_char c :: nat) = 226 \<and> map of_char (take 2 cs) = [132, 170 :: nat]
        then lowerASCII d = 107 \<and> EqualFold (drop 2 cs) ds
      else if (of_char c :: nat) = 197 \<and> map of_char (take 1 cs) = [191 :: nat]
        then lowerASCII d = 115 \<and> EqualFold (drop 1 cs) ds
      else False)"
  by pat_completeness auto
termination
  by (relation "measure (\<lambda>(s, t). length s)") auto

text \<open>
  \<^verbatim>\<open>strconv.ParseInt(s, 10, 64)\<close>: an optional sign, then one or more decimal digits and
  nothing else; a value outside the range of \<^verbatim>\<open>int64\<close> is an error. \<open>None\<close> is the
  error return.
\<close>

fun parseDigits :: "nat \<Rightarrow> string \<Rightarrow> nat option" where
  "parseDigits acc [] = Some acc"
| "parseDigits acc (c # cs) =
     (if 48 \<le> (of_char c :: nat) \<and> (of_char c :: nat) \<le> 57
      then parseDigits (acc * 10 + ((of_char c :: nat) - 48)) cs
      else None)"

definition ParseInt :: "string \<Rightarrow> int option" where
  "ParseInt s =
     (if s = [] then None
      else
        let neg = (hd s = CHR ''-'');
            ds = (if hd s = CHR ''+'' \<or> hd s = CHR ''-'' then tl s else s) in
        if ds = [] then None
        else
          (case parseDigits 0 ds of
             None \<Rightarrow> None
           | Some un \<Rightarrow>
               if \<not> neg \<and> un \<ge> 2 ^ 63 then None
               else if neg \<and> un > 2 ^ 63 then None
               else Some (if neg then - int un else int un)))"

subsection \<open>Headers\<close>

text \<open>
  \<^verbatim>\<open>http.Header\<close> is \<^verbatim>\<open>map[string][]string\<close>, keyed by the exact bytes of the name. The
  inbound header set is read by \<^verbatim>\<open>for key, values := range headers\<close>, whose order Go
  leaves unspecified: it is modelled as the list of the map's entries in the order the
  loop visits them, with pairwise distinct keys (\<open>wf_headers\<close>), so that a statement
  about every such list is a statement about every iteration order. The header of the
  outbound request is only ever written by key, and is a map.
\<close>

type_synonym headers_in = "(string \<times> string list) list"

type_synonym header_map = "string \<rightharpoonup> string list"

definition wf_headers :: "headers_in \<Rightarrow> bool" where
  "wf_headers headers = distinct (map fst headers)"

text \<open>\<^verbatim>\<open>Header.Get\<close>, \<^verbatim>\<open>Header.Set\<close> and \<^verbatim>\<open>Header.Del\<close> canonicalise the key they are given
  and then read or write the map at that key. Every key the client passes to them
  (\<^verbatim>\<open>Content-Length\<close>, \<^verbatim>\<open>X-Forwarded-Proto\<close>, \<^verbatim>\<open>X-Forwarded-Scheme\<close>, \<^verbatim>\<open>X-Scheme\<close>) is a
  constant already in canonical form, so the access is at the key as written.
  \<open>Get\<close> returns the first value, and the empty string when the key is absent or has
  no value.\<close>

definition Header_Get :: "headers_in \<Rightarrow> string \<Rightarrow> string" where
  "Header_Get headers key =
     (case map_of headers key of
        None \<Rightarrow> ''''
      | Some [] \<Rightarrow> ''''
      | Some (v # vs) \<Rightarrow> v)"

definition Header_Set :: "header_map \<Rightarrow> string \<Rightarrow> string \<Rightarrow> header_map" where
  "Header_Set h key v = h(key \<mapsto> [v])"

definition Header_Del :: "header_map \<Rightarrow> string \<Rightarrow> header_map" where
  "Header_Del h key = h(key := None)"

subsection \<open>The deny-list\<close>

definition hopByHopHeaders :: "string list" where
  "hopByHopHeaders =
     [''Connection'', ''Transfer-Encoding'', ''Upgrade'', ''Proxy-Connection'', ''TE'',
      ''Trailer'', ''Keep-Alive'',
      ''Cf-Visitor'', ''X-Forwarded-Host'', ''X-Forwarded-Port'', ''X-Forwarded-For'',
      ''X-Real-Ip'', ''X-Request-Id'', ''Cf-Connecting-Ip'', ''Cf-Ipcountry'', ''Cf-Ray'',
      ''Cdn-Loop'']"

fun matchesAny :: "string \<Rightarrow> string list \<Rightarrow> bool" where
  "matchesAny header [] = False"
| "matchesAny header (hopHeader # rest) =
     (if EqualFold header hopHeader then True else matchesAny header rest)"

definition isHopByHopHeader :: "string \<Rightarrow> bool" where
  "isHopByHopHeader header = matchesAny header hopByHopHeaders"

subsection \<open>Requests\<close>

text \<open>The body handed to \<^verbatim>\<open>http.NewRequest\<close>: \<^verbatim>\<open>nil\<close>, a \<^verbatim>\<open>*bytes.Reader\<close> (what the
  handlers and the metadata service pass), or any other \<^verbatim>\<open>io.Reader\<close>, whose length
  \<^verbatim>\<open>NewRequest\<close> does not know.\<close>

datatype body = NoBody | BytesReader string | OtherReader string

fun bodyLength :: "body \<Rightarrow> int" where
  "bodyLength NoBody = 0"
| "bodyLength (BytesReader b) = int (length b)"
| "bodyLength (OtherReader b) = 0"

record request =
  req_Method :: string
  req_URL :: string
  req_Host :: string
  req_Header :: header_map
  req_ContentLength :: int
  req_Body :: body

record Client =
  endpoint :: string

text \<open>
  \<^verbatim>\<open>http.NewRequest(method, url, body)\<close>. Parsing the URL and checking the method are the
  library's: \<open>urlHost method url\<close> is the host the library derives from the URL, and
  \<open>None\<close> when it rejects the method or the URL. A new request has an empty header, the
  host of its URL, and the content length the library knows for the body.
\<close>

datatype request_error = NewRequestError

definition NewRequest ::
  "(string \<Rightarrow> string \<Rightarrow> string option) \<Rightarrow> string \<Rightarrow> string \<Rightarrow> body \<Rightarrow> request_error + request" where
  "NewRequest urlHost method url b =
     (case urlHost method url of
        None \<Rightarrow> Inl NewRequestError
      | Some h \<Rightarrow>
          Inr \<lparr>req_Method = (if method = [] then ''GET'' else method), req_URL = url,
               req_Host = h, req_Header = Map.empty, req_ContentLength = bodyLength b,
               req_Body = b\<rparr>)"

subsection \<open>\<^verbatim>\<open>copyHeaders\<close>\<close>

text \<open>
  The loop of \<^verbatim>\<open>copyHeaders\<close> over the inbound entries; its state is the captured
  \<^verbatim>\<open>originalHost\<close> and the header of the outbound request. An entry without value is
  skipped; the first value of an entry whose name equals \<^verbatim>\<open>host\<close> under case folding is
  captured; an entry of the deny-list is skipped; every other entry is stored under its
  name as it stands, with its first value only. Logging is not modelled.
\<close>

fun copyHeaders_loop :: "headers_in \<Rightarrow> string \<times> header_map \<Rightarrow> string \<times> header_map" where
  "copyHeaders_loop [] st = st"
| "copyHeaders_loop ((key, values) # rest) (originalHost, h) =
     (if values = [] then copyHeaders_loop rest (originalHost, h)
      else
        let v = hd values;
            originalHost' = (if EqualFold key ''host'' then v else originalHost) in
        if isHopByHopHeader key then copyHeaders_loop rest (originalHost', h)
        else copyHeaders_loop rest (originalHost', h(key \<mapsto> [v])))"

definition copyHeaders :: "request \<Rightarrow> headers_in \<Rightarrow> request" where
  "copyHeaders req headers =
     (let (originalHost, h) = copyHeaders_loop headers ('''', req_Header req) in
      if originalHost \<noteq> ''''
      then req\<lparr>req_Host := originalHost, req_Header := h(''Host'' \<mapsto> [originalHost])\<rparr>
      else req\<lparr>req_Header := h\<rparr>)"

subsection \<open>\<^verbatim>\<open>ForwardRequest\<close>\<close>

text \<open>The URL of the outbound request: the configured endpoint, the path, and the
  query string after a question mark when there is one (\<^verbatim>\<open>nil\<close> and the empty slice are
  both the empty string here).\<close>

definition fullURL :: "Client \<Rightarrow> string \<Rightarrow> string \<Rightarrow> string" where
  "fullURL c path queryString =
     endpoint c @ path @ (if queryString \<noteq> [] then ''?'' @ queryString else [])"

text \<open>The request \<^verbatim>\<open>ForwardRequest\<close> hands to \<^verbatim>\<open>httpClient.Do\<close>: the new request, the
  copied headers, the preserved \<^verbatim>\<open>Content-Length\<close> and the removal of the three
  scheme-hint headers, in the order of the code.\<close>

definition ForwardRequest_request ::
  "(string \<Rightarrow> string \<Rightarrow> string option) \<Rightarrow> Client \<Rightarrow> string \<Rightarrow> string \<Rightarrow> body \<Rightarrow> headers_in \<Rightarrow> string
     \<Rightarrow> request_error + request" where
  "ForwardRequest_request urlHost c method path b headers queryString =
     (case NewRequest urlHost method (fullURL c path queryString) b of
        Inl e \<Rightarrow> Inl e
      | Inr req0 \<Rightarrow>
          let req1 = copyHeaders req0 headers;
              originalContentLength = Header_Get headers ''Content-Length'';
              req2 =
                (if originalContentLength \<noteq> ''''
                 then
                   let r = req1\<lparr>req_Header :=
                             Header_Set (req_Header req1) ''Content-Length'' originalContentLength\<rparr>
                   in (case ParseInt originalContentLength of
                         Some n \<Rightarrow> r\<lparr>req_ContentLength := n\<rparr>
                       | None \<Rightarrow> r)
                 else req1);
              req3 = req2\<lparr>req_Header :=
                       Header_Del (Header_Del (Header_Del (req_Header req2)
                         ''X-Forwarded-Proto'') ''X-Forwarded-Scheme'') ''X-Scheme''\<rparr>
          in Inr req3)"

text \<open>A backend response: the status code, the headers (a Go map, in some iteration
  order) and the body, whose reading can fail.\<close>

datatype io_error = ReadError

record response =
  resp_StatusCode :: int
  resp_Header :: headers_in
  resp_Body :: "io_error + string"

datatype forward_error = FailedToCreateRequest | FailedToForward

text \<open>\<^verbatim>\<open>ForwardRequest\<close> itself: \<open>doRequest\<close> is \<^verbatim>\<open>httpClient.Do\<close>, the round trip to the
  backend (\<open>None\<close> when it fails). For a status of 400 or more the code reads the body
  and puts a reader over the same bytes in its place, which leaves the response as it
  was for whoever reads it next.\<close>

definition ForwardRequest ::
  "(string \<Rightarrow> string \<Rightarrow> string option) \<Rightarrow> (request \<Rightarrow> response option) \<Rightarrow> Client \<Rightarrow> string \<Rightarrow> string
     \<Rightarrow> body \<Rightarrow> headers_in \<Rightarrow> string \<Rightarrow> forward_error + response" where
  "ForwardRequest urlHost doRequest c method path b headers queryString =
     (case ForwardRequest_request urlHost c method path b headers queryString of
        Inl e \<Rightarrow> Inl FailedToCreateRequest
      | Inr req \<Rightarrow>
          (case doRequest req of
             None \<Rightarrow> Inl FailedToForward
           | Some resp \<Rightarrow> Inr resp))"

subsection \<open>Notions used to state the properties of the forwarding core\<close>

text \<open>The host value \<^verbatim>\<open>copyHeaders\<close> has captured when its loop ends (the variable
  \<^verbatim>\<open>originalHost\<close>): the first value of the entry the loop visited last among those
  named \<^verbatim>\<open>host\<close> in any letter case, and the empty string when there is none.\<close>

definition capturedHost :: "headers_in \<Rightarrow> string" where
  "capturedHost headers = fst (copyHeaders_loop headers ('''', Map.empty))"

text \<open>Two header names that differ at most in the case of their ASCII letters.\<close>

definition sameNameAnyCase :: "string \<Rightarrow> string \<Rightarrow> bool" where
  "sameNameAnyCase a b = (map lowerASCII a = map lowerASCII b)"

text \<open>A name made of ASCII bytes only.\<close>

definition isASCII :: "string \<Rightarrow> bool" where
  "isASCII s = list_all (\<lambda>c. (of_char c :: nat) < 128) s"

text \<open>A header map none of whose names carries more than one value.\<close>

definition singleValued :: "header_map \<Rightarrow> bool" where
  "singleValued h = (\<forall>k vals. h k = Some vals \<longrightarrow> length vals = 1)"

text \<open>A stand-in for the library's URL parsing in the worked examples: it accepts the
  URLs of the backend \<^verbatim>\<open>minio:9000\<close> and gives their host.\<close>

definition minioUrlHost :: "string \<Rightarrow> string \<Rightarrow> string option" where
  "minioUrlHost method url =
     (if HasPrefix url ''http://minio:9000'' \<or> HasPrefix url ''https://minio:9000''
      then Some ''minio:9000'' else None)"

text \<open>The request \<^verbatim>\<open>http.NewRequest\<close> gives for a \<^verbatim>\<open>GET\<close> of
  \<^verbatim>\<open>http://minio:9000/bucket1\<close> without body, used in the worked examples.\<close>

definition newMinioRequest :: request where
  "newMinioRequest =
     \<lparr>req_Method = ''GET'', req_URL = ''http://minio:9000/bucket1'', req_Host = ''minio:9000'',
      req_Header = Map.empty, req_ContentLength = 0, req_Body = NoBody\<rparr>"

subsection \<open>\<^verbatim>\<open>extractHeaders\<close>\<close>

text \<open>
  The handlers build the inbound header set with \<^verbatim>\<open>extractHeaders\<close>: \<^verbatim>\<open>VisitAll\<close> calls
  the function once for each header line of the request, in order, and the function
  appends the value to the entry at the name as the line spells it
  (\<^verbatim>\<open>headers[keyStr] = append(headers[keyStr], valueStr)\<close>). The argument is the list of
  the lines visited.
\<close>

fun extractHeaders_loop :: "(string \<times> string) list \<Rightarrow> header_map \<Rightarrow> header_map" where
  "extractHeaders_loop [] headers = headers"
| "extractHeaders_loop ((key, v) # rest) headers =
     extractHeaders_loop rest
       (headers(key \<mapsto> (case headers key of None \<Rightarrow> [] | Some vs \<Rightarrow> vs) @ [v]))"

definition extractHeaders :: "(string \<times> string) list \<Rightarrow> header_map" where
  "extractHeaders visited = extractHeaders_loop visited Map.empty"

text \<open>A list of entries is an iteration order of a Go map when it holds each key of the
  map once, with the value of the map.\<close>

definition enumerates :: "headers_in \<Rightarrow> header_map \<Rightarrow> bool" where
  "enumerates headers m = (wf_headers headers \<and> map_of headers = m)"

subsection \<open>The earlier revision of \<^verbatim>\<open>copyHeaders\<close>\<close>

text \<open>
  The repository also holds the revision of the client (\<^verbatim>\<open>internal/s3/client.go\<close>) from
  before names were preserved: it compares names exactly, against seven names, and
  stores through \<^verbatim>\<open>Header.Set\<close>, which writes at the canonical form of the name.
  \<open>canonical\<close> is \<^verbatim>\<open>textproto.CanonicalMIMEHeaderKey\<close>.
\<close>

definition hopByHopHeaders_old :: "string list" where
  "hopByHopHeaders_old =
     [''Connection'', ''Transfer-Encoding'', ''Upgrade'', ''Proxy-Connection'', ''TE'',
      ''Trailer'', ''Keep-Alive'']"

fun equalsAny :: "string \<Rightarrow> string list \<Rightarrow> bool" where
  "equalsAny header [] = False"
| "equalsAny header (hopHeader # rest) =
     (if header = hopHeader then True else equalsAny header rest)"

definition isHopByHopHeader_old :: "string \<Rightarrow> bool" where
  "isHopByHopHeader_old header = equalsAny header hopByHopHeaders_old"

fun copyHeaders_old_loop ::
  "(string \<Rightarrow> string) \<Rightarrow> headers_in \<Rightarrow> string \<times> header_map \<Rightarrow> string \<times> header_map" where
  "copyHeaders_old_loop canonical [] st = st"
| "copyHeaders_old_loop canonical ((key, values) # rest) (originalHost, h) =
     (if values = [] then copyHeaders_old_loop canonical rest (originalHost, h)
      else
        let v = hd values;
            originalHost' = (if key = ''Host'' then v else originalHost) in
        if isHopByHopHeader_old key then copyHeaders_old_loop canonical rest (originalHost', h)
        else copyHeaders_old_loop canonical rest (originalHost', h(canonical key \<mapsto> [v])))"

definition copyHeaders_old :: "(string \<Rightarrow> string) \<Rightarrow> request \<Rightarrow> headers_in \<Rightarrow> request" where
  "copyHeaders_old canonical req headers =
     (let (originalHost, h) = copyHeaders_old_loop canonical headers ('''', req_Header req) in
      if originalHost \<noteq> ''''
      then req\<lparr>req_Host := originalHost,
               req_Header := h(canonical ''Host'' \<mapsto> [originalHost])\<rparr>
      else req\<lparr>req_Header := h\<rparr>)"

section \<open>Metadata overlay and handlers\<close>

subsection \<open>Data\<close>

text \<open>The structs of package \<^verbatim>\<open>types\<close>. \<^verbatim>\<open>int64\<close> sizes are integers; the timestamp of a
  listing entry is carried as text, since nothing here reads it. The fields of
  \<^verbatim>\<open>ObjectMetadata\<close> and \<^verbatim>\<open>ListBucketResult\<close> carry a prefix, as two records cannot share
  a field name.\<close>

record Content =
  Key :: string
  LastModified :: string
  ETag :: string
  Size :: int
  StorageClass :: string

record ListBucketResult =
  list_Name :: string
  list_Prefix :: string
  list_MaxKeys :: int
  list_IsTruncated :: bool
  list_Contents :: "Content list"

record ObjectMetadata =
  meta_ContentLength :: int
  meta_ContentType :: string
  meta_ETag :: string
  meta_LastModified :: string
  meta_KMSKeyARN :: string
  meta_CustomMeta :: "(string \<times> string) list"

text \<open>
  The metadata service and the handlers hold the S3 client as the interface
  \<^verbatim>\<open>s3.Interface\<close>: a call of \<^verbatim>\<open>ForwardRequest(method, path, body, headers, queryString)\<close>
  gives a response or an error. The interface is a function of the arguments of the call.
\<close>

type_synonym s3_forward =
  "string \<Rightarrow> string \<Rightarrow> body \<Rightarrow> headers_in \<Rightarrow> string \<Rightarrow> forward_error + response"

subsection \<open>\<^verbatim>\<open>metadata.Service\<close>\<close>

definition getMetadataKey :: "string \<Rightarrow> string" where
  "getMetadataKey objectKey = objectKey @ ''.metadata''"

text \<open>The errors of \<^verbatim>\<open>Get\<close>, one constructor for each \<^verbatim>\<open>fmt.Errorf\<close> of the function, with
  what the message prints.\<close>

datatype get_error =
    FailedToGetMetadata forward_error
  | MetadataNotFound string string
  | AccessDeniedReadingMetadata int
  | FailedToGetMetadataHTTP int
  | FailedToReadMetadata io_error
  | FailedToUnmarshalMetadata

text \<open>\<^verbatim>\<open>Get\<close>. \<open>unmarshal\<close> is \<^verbatim>\<open>json.Unmarshal\<close> into an \<^verbatim>\<open>ObjectMetadata\<close> (\<open>None\<close> when it
  returns an error); \<open>forward\<close> is the S3 client.\<close>

definition Get ::
  "(string \<Rightarrow> ObjectMetadata option) \<Rightarrow> s3_forward \<Rightarrow> string \<Rightarrow> string \<Rightarrow> headers_in
     \<Rightarrow> get_error + ObjectMetadata" where
  "Get unmarshal forward bucket key headers =
     (let metadataKey = getMetadataKey key;
          path = ''/'' @ bucket @ ''/'' @ metadataKey in
      case forward ''GET'' path NoBody headers [] of
        Inl err \<Rightarrow> Inl (FailedToGetMetadata err)
      | Inr resp \<Rightarrow>
          if resp_StatusCode resp = 404 then Inl (MetadataNotFound bucket key)
          else if resp_StatusCode resp = 403
            then Inl (AccessDeniedReadingMetadata (resp_StatusCode resp))
          else if resp_StatusCode resp \<ge> 400
            then Inl (FailedToGetMetadataHTTP (resp_StatusCode resp))
          else
            (case resp_Body resp of
               Inl e \<Rightarrow> Inl (FailedToReadMetadata e)
             | Inr metadataBytes \<Rightarrow>
                 (case unmarshal metadataBytes of
                    None \<Rightarrow> Inl FailedToUnmarshalMetadata
                  | Some metadata \<Rightarrow> Inr metadata)))"

text \<open>\<^verbatim>\<open>FilterMetadataObjects\<close>: the loop appends to \<^verbatim>\<open>filtered\<close> every entry whose key does
  not end in \<^verbatim>\<open>.metadata\<close>.\<close>

fun FilterMetadataObjects_loop :: "Content list \<Rightarrow> Content list \<Rightarrow> Content list" where
  "FilterMetadataObjects_loop filtered [] = filtered"
| "FilterMetadataObjects_loop filtered (obj # rest) =
     (if \<not> HasSuffix (Key obj) ''.metadata''
      then FilterMetadataObjects_loop (filtered @ [obj]) rest
      else FilterMetadataObjects_loop filtered rest)"

definition FilterMetadataObjects :: "Content list \<Rightarrow> Content list" where
  "FilterMetadataObjects contents = FilterMetadataObjects_loop [] contents"

subsection \<open>\<^verbatim>\<open>ListObjects\<close>\<close>

text \<open>
  What the handler sends: an XML error with a status, code and message; the backend
  response relayed by \<^verbatim>\<open>forwardResponse\<close>; the raw body relayed by
  \<^verbatim>\<open>forwardRawResponse\<close>; or the listing, marshalled by \<^verbatim>\<open>c.XML\<close> with the default status
  200 (marshalling the listing is the library's and is taken to succeed).
\<close>

datatype list_response =
    XMLError int string string
  | Forwarded response
  | ForwardedRaw int headers_in string
  | ListingXML ListBucketResult

text \<open>
  The handler calls the backend once for the listing and then once for each entry that
  is left. The outcome of a round trip can differ from call to call, so the S3 client
  is indexed by the number of calls made before: call \<open>0\<close> is the listing, call
  \<open>Suc i\<close> the metadata read for the entry at index \<open>i\<close>. The metadata service of the
  handler is the service above over the same client, as the server wires it.

  The enrichment loop \<^verbatim>\<open>for i := range filteredContents\<close> writes the entry at index \<open>i\<close>
  in place when \<^verbatim>\<open>Get\<close> returns no error.
\<close>

function enrich_from ::
  "(string \<Rightarrow> ObjectMetadata option) \<Rightarrow> (nat \<Rightarrow> s3_forward) \<Rightarrow> string \<Rightarrow> headers_in
     \<Rightarrow> nat \<Rightarrow> Content list \<Rightarrow> Content list" where
  "enrich_from unmarshal s3 bucket headers i filteredContents =
     (if i < length filteredContents then
        (case Get unmarshal (s3 (Suc i)) bucket (Key (filteredContents ! i)) headers of
           Inr storedMeta \<Rightarrow>
             enrich_from unmarshal s3 bucket headers (Suc i)
               (filteredContents[i := (filteredContents ! i)
                  \<lparr>Size := meta_ContentLength storedMeta, ETag := meta_ETag storedMeta\<rparr>])
         | Inl metaErr \<Rightarrow> enrich_from unmarshal s3 bucket headers (Suc i) filteredContents)
      else filteredContents)"
  by pat_completeness auto
termination
  by (relation "measure (\<lambda>(unmarshal, s3, bucket, headers, i, cs). length cs - i)") auto

declare enrich_from.simps [simp del]

text \<open>\<open>xmlUnmarshal\<close> is \<^verbatim>\<open>xml.Unmarshal\<close> into a \<^verbatim>\<open>ListBucketResult\<close>.\<close>

definition ListObjects ::
  "(string \<Rightarrow> ListBucketResult option) \<Rightarrow> (string \<Rightarrow> ObjectMetadata option) \<Rightarrow> (nat \<Rightarrow> s3_forward)
     \<Rightarrow> string \<Rightarrow> headers_in \<Rightarrow> string \<Rightarrow> list_response" where
  "ListObjects xmlUnmarshal unmarshal s3 bucket headers queryString =
     (let path = ''/'' @ bucket in
      case s3 0 ''GET'' path NoBody headers queryString of
        Inl err \<Rightarrow> XMLError 500 ''InternalError'' ''Failed to list objects''
      | Inr resp \<Rightarrow>
          if resp_StatusCode resp \<ge> 400 then Forwarded resp
          else
            (case resp_Body resp of
               Inl e \<Rightarrow> XMLError 500 ''InternalError'' ''Failed to read list response''
             | Inr b \<Rightarrow>
                 (case xmlUnmarshal b of
                    None \<Rightarrow> ForwardedRaw (resp_StatusCode resp) (resp_Header resp) b
                  | Some listResult \<Rightarrow>
                      let filteredContents = FilterMetadataObjects (list_Contents listResult);
                          enriched = enrich_from unmarshal s3 bucket headers 0 filteredContents
                      in ListingXML (listResult\<lparr>list_Contents := enriched\<rparr>))))"

text \<open>Stand-ins for the worked examples: a JSON decoder that accepts the empty object
  (\<^verbatim>\<open>json.Unmarshal\<close> then leaves every field at its zero value), and a backend that
  answers every call with a given status and body.\<close>

definition zeroMetadata :: ObjectMetadata where
  "zeroMetadata =
     \<lparr>meta_ContentLength = 0, meta_ContentType = [], meta_ETag = [], meta_LastModified = [],
      meta_KMSKeyARN = [], meta_CustomMeta = []\<rparr>"

definition unmarshalEmptyObject :: "string \<Rightarrow> ObjectMetadata option" where
  "unmarshalEmptyObject bytes = (if bytes = ''{}'' then Some zeroMetadata else None)"

definition answering :: "int \<Rightarrow> string \<Rightarrow> s3_forward" where
  "answering status b method path reqBody headers queryString =
     Inr \<lparr>resp_StatusCode = status, resp_Header = [], resp_Body = Inr b\<rparr>"

text \<open>What the enrichment makes of one entry, given the outcome of its metadata read.\<close>

definition enriched_entry :: "get_error + ObjectMetadata \<Rightarrow> Content \<Rightarrow> Content" where
  "enriched_entry r entry =
     (case r of
        Inr storedMeta \<Rightarrow>
          entry\<lparr>Size := meta_ContentLength storedMeta, ETag := meta_ETag storedMeta\<rparr>
      | Inl metaErr \<Rightarrow> entry)"

text \<open>A listing of three entries, one of them a sidecar record, with a stand-in for
  \<^verbatim>\<open>xml.Unmarshal\<close> that reads the body \<^verbatim>\<open>listing\<close> as this listing, and a backend that
  answers the listing call with that body, the first metadata read with an empty JSON
  object and every later call with 404.\<close>

definition exampleListing :: ListBucketResult where
  "exampleListing =
     \<lparr>list_Name = ''bucket1'', list_Prefix = [], list_MaxKeys = 1000, list_IsTruncated = False,
      list_Contents =
        [\<lparr>Key = ''file.txt'', LastModified = ''t1'', ETag = ''raw1'', Size = 99,
          StorageClass = ''STANDARD''\<rparr>,
         \<lparr>Key = ''file.txt.metadata'', LastModified = ''t2'', ETag = ''raw2'', Size = 120,
          StorageClass = ''STANDARD''\<rparr>,
         \<lparr>Key = ''other.bin'', LastModified = ''t3'', ETag = ''raw3'', Size = 7,
          StorageClass = ''STANDARD''\<rparr>]\<rparr>"

definition exampleXmlUnmarshal :: "string \<Rightarrow> ListBucketResult option" where
  "exampleXmlUnmarshal b = (if b = ''listing'' then Some exampleListing else None)"

definition exampleBackend :: "nat \<Rightarrow> s3_forward" where
  "exampleBackend i =
     (if i = 0 then answering 200 ''listing''
      else if i = 1 then answering 200 ''{}''
      else answering 404 [])"

subsection \<open>\<^verbatim>\<open>PutObject\<close>\<close>

text \<open>
  The calls a handler makes on its collaborators, in order: the methods of
  \<^verbatim>\<open>vault.Interface\<close>, of \<^verbatim>\<open>s3.Interface\<close> and of \<^verbatim>\<open>metadata.Interface\<close>, with their
  arguments. A handler returns the list of the calls it made next to its response, so
  that what it never calls can be stated.
\<close>

datatype call =
    VaultEncrypt string string
  | VaultDecrypt string string
  | VaultARNToVaultKey string
  | VaultAddress
  | VaultHealthCheck
  | S3ForwardRequest string string body headers_in string
  | S3HeadObject string string headers_in
  | MetadataStore string string ObjectMetadata headers_in
  | MetadataGet string string headers_in
  | MetadataExists string string headers_in










section \<open>Properties of the string functions and of the ARN mapping\<close>

lemma Split_not_Nil: "Split c s \<noteq> []"
  by (induction s) (auto split: list.splits)

lemma Split_free: "c \<notin> set xs \<Longrightarrow> Split c xs = [xs]"
  by (induction xs) auto

lemma Split_append: "c \<notin> set xs \<Longrightarrow> Split c (xs @ c # ys) = xs # Split c ys"
  by (induction xs) auto

lemma Join_Split: "Join c (Split c s) = s"
proof (induction s)
  case Nil show ?case by simp
next
  case (Cons a s)
  obtain p ps where sp: "Split c s = p # ps" using Split_not_Nil by (cases "Split c s") auto
  show ?case using Cons sp by (cases ps) auto
qed

lemma Split_parts_free: "p \<in> set (Split c s) \<Longrightarrow> c \<notin> set p"
proof (induction s arbitrary: p)
  case Nil then show ?case by simp
next
  case (Cons a s)
  obtain q qs where sp: "Split c s = q # qs" using Split_not_Nil by (cases "Split c s") auto
  show ?case using Cons sp by (auto split: if_splits)
qed

lemma Split_two: "Split c s = [p, q] \<Longrightarrow> s = p @ c # q \<and> c \<notin> set p \<and> c \<notin> set q"
  using Join_Split [of c s] Split_parts_free [of p c s] Split_parts_free [of q c s]
  by auto

lemma Split_three:
  "Split c s = [p, q, r] \<Longrightarrow>
     s = p @ c # q @ c # r \<and> c \<notin> set p \<and> c \<notin> set q \<and> c \<notin> set r"
  using Join_Split [of c s] Split_parts_free [of p c s] Split_parts_free [of q c s]
    Split_parts_free [of r c s]
  by auto

lemma Split_arn_prefix:
  "Split CHR '':'' (''arn:aws:kms:'' @ rest) = ''arn'' # ''aws'' # ''kms'' # Split CHR '':'' rest"
  by simp

lemma HasPrefix_append: "HasPrefix s pre \<longleftrightarrow> (\<exists>rest. s = pre @ rest)"
  unfolding HasPrefix_def
  by (metis append_eq_conv_conj append_take_drop_id length_append le_add1)

lemma length_eq_3: "length xs = 3 \<Longrightarrow> \<exists>a b c. xs = [a, b, c]"
  by (cases xs; cases "tl xs"; cases "tl (tl xs)") auto

lemma length_eq_2: "length xs = 2 \<Longrightarrow> \<exists>a b. xs = [a, b]"
  by (cases xs; cases "tl xs") auto

lemma ARNToVaultKey_valid:
  assumes "kms_key_arn arn R A U"
  shows "ARNToVaultKey arn = (R @ ''_'' @ A @ ''_'' @ U, None)"
proof -
  from assms have arn: "arn = ''arn:aws:kms:'' @ R @ '':'' @ A @ '':key/'' @ U"
    and ne: "R \<noteq> []" "A \<noteq> []" "U \<noteq> []"
    and fr: "CHR '':'' \<notin> set R" "CHR '':'' \<notin> set A" "CHR '':'' \<notin> set U" "CHR ''/'' \<notin> set U"
    by (simp_all add: kms_key_arn_def)
  have k: "CHR '':'' \<notin> set (''key/'' @ U)" using fr by simp
  have rest: "Split CHR '':'' (R @ CHR '':'' # A @ CHR '':'' # ''key/'' @ U) = [R, A, ''key/'' @ U]"
  proof -
    have "Split CHR '':'' (''key/'' @ U) = [''key/'' @ U]" using k by (rule Split_free)
    then have "Split CHR '':'' (A @ CHR '':'' # ''key/'' @ U) = [A, ''key/'' @ U]"
      using Split_append [OF fr(2), of "''key/'' @ U"] by simp
    then show ?thesis
      using Split_append [OF fr(1), of "A @ CHR '':'' # ''key/'' @ U"] by simp
  qed
  have parts: "Split CHR '':'' arn = [''arn'', ''aws'', ''kms'', R, A, ''key/'' @ U]"
    unfolding arn using Split_arn_prefix [of "R @ '':'' @ A @ '':key/'' @ U"] rest by simp
  have kp: "Split CHR ''/'' (''key/'' @ U) = [''key'', U]"
    using Split_append [of "CHR ''/''" "''key''" U] Split_free [of "CHR ''/''" U] fr by simp
  have kp': "Split CHR ''/'' (CHR ''k'' # CHR ''e'' # CHR ''y'' # CHR ''/'' # U) = [''key'', U]"
    using kp by (simp del: Split.simps)
  have pre: "HasPrefix arn ''arn:aws:kms:''"
    unfolding arn HasPrefix_def by simp
  have nonempty: "arn \<noteq> []" unfolding arn by simp
  show ?thesis
    unfolding ARNToVaultKey_def using nonempty pre ne
    by (simp add: parts kp' Let_def del: Split.simps)
qed

lemma ARNToVaultKey_accepts:
  assumes "ARNToVaultKey arn = (k, None)"
  shows "\<exists>R A U. kms_key_arn arn R A U \<and> k = R @ ''_'' @ A @ ''_'' @ U"
proof -
  from assms have pre: "HasPrefix arn ''arn:aws:kms:''"
    unfolding ARNToVaultKey_def by (auto simp: Let_def split: if_splits)
  then obtain rest where arn: "arn = ''arn:aws:kms:'' @ rest"
    using HasPrefix_append by blast
  have sp: "Split CHR '':'' arn = ''arn'' # ''aws'' # ''kms'' # Split CHR '':'' rest"
    unfolding arn by (rule Split_arn_prefix)
  from assms have len: "length (Split CHR '':'' arn) = 6"
    unfolding ARNToVaultKey_def by (auto simp: Let_def split: if_splits)
  then have "length (Split CHR '':'' rest) = 3" unfolding sp by simp
  then obtain R A K where rs: "Split CHR '':'' rest = [R, A, K]"
    using length_eq_3 by blast
  have parts: "Split CHR '':'' arn = [''arn'', ''aws'', ''kms'', R, A, K]"
    unfolding sp rs by simp
  from assms pre len have kl: "length (Split CHR ''/'' K) = 2"
    and k0: "Split CHR ''/'' K ! 0 = ''key''"
    and ne: "R \<noteq> []" "A \<noteq> []" "Split CHR ''/'' K ! 1 \<noteq> []"
    and res: "k = R @ ''_'' @ A @ ''_'' @ Split CHR ''/'' K ! 1"
    unfolding ARNToVaultKey_def
    by (auto simp: Let_def parts simp del: Split.simps split: if_splits)
  from kl obtain a U where ks: "Split CHR ''/'' K = [a, U]" using length_eq_2 by blast
  with k0 have a: "a = ''key''" by simp
  from Split_three [OF rs] have restf: "rest = R @ CHR '':'' # A @ CHR '':'' # K"
    and fr: "CHR '':'' \<notin> set R" "CHR '':'' \<notin> set A" "CHR '':'' \<notin> set K" by auto
  from Split_two [OF ks] a have K: "K = ''key'' @ CHR ''/'' # U" and fu: "CHR ''/'' \<notin> set U" by auto
  have "kms_key_arn arn R A U"
    unfolding kms_key_arn_def arn restf K using ne fr fu ks K by auto
  moreover have "k = R @ ''_'' @ A @ ''_'' @ U" using res ks by simp
  ultimately show ?thesis by blast
qed

lemma ARNToVaultKey_shape:
  "(\<exists>k. ARNToVaultKey arn = (k, None)) \<or> (\<exists>e. ARNToVaultKey arn = ('''', Some e))"
  unfolding ARNToVaultKey_def by (simp add: Let_def del: Split.simps)

subsection \<open>The rows of the repository's test table\<close>

text \<open>\<^verbatim>\<open>TestARNToVaultKey\<close> lists malformed ARNs; the model gives the error the code
  returns at each of them.\<close>

lemma ARNToVaultKey_test_wrong_service: "ARNToVaultKey ''arn:aws:s3:us-east-1:123456789012:bucket/mybucket'' =
   ('''', Some (InvalidARNFormat ''arn:aws:s3:us-east-1:123456789012:bucket/mybucket''))"
  by (simp add: ARNToVaultKey_def HasPrefix_def)

lemma ARNToVaultKey_test_too_many_parts: "ARNToVaultKey ''arn:aws:kms:us-east-1:123456789012:key:extra:parts'' =
   ('''', Some (Expected6Parts ''arn:aws:kms:us-east-1:123456789012:key:extra:parts''))"
  by (simp add: ARNToVaultKey_def HasPrefix_def)

lemma ARNToVaultKey_test_missing_key_prefix: "ARNToVaultKey ''arn:aws:kms:us-east-1:123456789012:alias/my-key'' =
   ('''', Some (InvalidKeyFormat ''arn:aws:kms:us-east-1:123456789012:alias/my-key''))"
  by (simp add: ARNToVaultKey_def HasPrefix_def)

lemma ARNToVaultKey_test_missing_uuid: "ARNToVaultKey ''arn:aws:kms:us-east-1:123456789012:key/'' =
   ('''', Some (MissingComponents ''arn:aws:kms:us-east-1:123456789012:key/''))"
  by (simp add: ARNToVaultKey_def HasPrefix_def)

subsection \<open>C2: the mapping equals the reference mapping\<close>

text \<open>
  Claim C2. For every input of the form \<^verbatim>\<open>arn:aws:kms:R:A:key/U\<close> (exactly six
  colon-delimited parts, the last one splitting into exactly two slash-delimited pieces
  whose first is \<^verbatim>\<open>key\<close>, and \<open>R\<close>, \<open>A\<close>, \<open>U\<close> non-empty) \<open>ARNToVaultKey\<close> returns
  exactly \<^verbatim>\<open>R_A_U\<close> and no error; for every other input it returns an error together
  with the empty string, never a partial result. The function reads nothing but its
  argument and has no effect, so it is the HOL function \<open>ARNToVaultKey\<close> itself: the
  same input gives the same output.
\<close>

theorem ARNToVaultKey_reference:
  "(kms_key_arn arn R A U \<longrightarrow> ARNToVaultKey arn = (R @ ''_'' @ A @ ''_'' @ U, None)) \<and>
   ((\<nexists>R A U. kms_key_arn arn R A U) \<longrightarrow> (\<exists>e. ARNToVaultKey arn = ('''', Some e)))"
  using ARNToVaultKey_valid [of arn R A U] ARNToVaultKey_accepts [of arn] ARNToVaultKey_shape [of arn]
  by blast

theorem ARNToVaultKey_reference_witness:
  "ARNToVaultKey ''arn:aws:kms:us-east-1:123456789012:key/12345678-1234-1234-1234-123456789012''
     = (''us-east-1_123456789012_12345678-1234-1234-1234-123456789012'', None) \<and>
   (\<exists>e. ARNToVaultKey '''' = ('''', Some e))"
proof -
  have v: "kms_key_arn ''arn:aws:kms:us-east-1:123456789012:key/12345678-1234-1234-1234-123456789012''
      ''us-east-1'' ''123456789012'' ''12345678-1234-1234-1234-123456789012''"
    by (simp add: kms_key_arn_def)
  have n: "\<nexists>R A U. kms_key_arn '''' R A U"
    by (simp add: kms_key_arn_def)
  show ?thesis
    using v n
      ARNToVaultKey_reference [of "''arn:aws:kms:us-east-1:123456789012:key/12345678-1234-1234-1234-123456789012''"
        "''us-east-1''" "''123456789012''" "''12345678-1234-1234-1234-123456789012''"]
      ARNToVaultKey_reference [of "''''" "''''" "''''" "''''"]
    by simp
qed

section \<open>Properties of the forwarding core\<close>

subsection \<open>The copy loop\<close>

lemma copyHeaders_loop_fst_indep:
  "fst (copyHeaders_loop hs (oh, h)) = fst (copyHeaders_loop hs (oh, h'))"
  by (induction hs arbitrary: oh h h') (auto simp: Let_def)

lemma copyHeaders_loop_header:
  assumes "distinct (map fst hs)"
  shows "snd (copyHeaders_loop hs (oh, h)) k =
           (case map_of hs k of
              Some (v # vs) \<Rightarrow> if isHopByHopHeader k then h k else Some [v]
            | _ \<Rightarrow> h k)"
  using assms
proof (induction hs arbitrary: oh h)
  case Nil
  then show ?case by simp
next
  case (Cons e hs)
  obtain key vals where e: "e = (key, vals)" by (cases e)
  from Cons.prems e have d: "distinct (map fst hs)" and nk: "key \<notin> fst ` set hs" by auto
  from nk have mk: "map_of hs key = None" by (simp add: map_of_eq_None_iff)
  show ?case
  proof (cases "k = key")
    case True
    then show ?thesis using mk e Cons.IH [OF d]
      by (cases vals) (auto simp: Let_def)
  next
    case False
    then show ?thesis using e Cons.IH [OF d]
      by (cases vals) (auto simp: Let_def split: option.splits list.splits)
  qed
qed

lemma copyHeaders_loop_hop_untouched:
  "isHopByHopHeader k \<Longrightarrow> snd (copyHeaders_loop hs (oh, h)) k = h k"
  by (induction hs arbitrary: oh h) (auto simp: Let_def)

lemma singleValued_upd: "singleValued h \<Longrightarrow> singleValued (h(k \<mapsto> [x]))"
  by (simp add: singleValued_def)

lemma singleValued_del: "singleValued h \<Longrightarrow> singleValued (h(k := None))"
  by (simp add: singleValued_def)

lemma copyHeaders_loop_singleValued:
  "singleValued h \<Longrightarrow> singleValued (snd (copyHeaders_loop hs (oh, h)))"
proof (induction hs arbitrary: oh h)
  case Nil
  then show ?case by simp
next
  case (Cons e hs)
  obtain key vals where e: "e = (key, vals)" by (cases e)
  have up: "singleValued (h(key \<mapsto> [hd vals]))"
    using Cons.prems by (rule singleValued_upd)
  show ?case
    unfolding e using Cons.IH [OF Cons.prems] Cons.IH [OF up]
    by (simp add: Let_def del: fun_upd_apply)
qed

lemma copyHeaders_loop_host_agree:
  assumes "\<forall>(k, vs) \<in> set hs. EqualFold k ''host'' \<and> vs \<noteq> [] \<longrightarrow> hd vs = hv"
  shows "fst (copyHeaders_loop hs (oh, h)) =
           (if \<exists>(k, vs) \<in> set hs. EqualFold k ''host'' \<and> vs \<noteq> [] then hv else oh)"
  using assms
proof (induction hs arbitrary: oh h)
  case Nil
  then show ?case by simp
next
  case (Cons e hs)
  obtain key vals where e: "e = (key, vals)" by (cases e)
  from Cons.prems have rest: "\<forall>(k, vs) \<in> set hs. EqualFold k ''host'' \<and> vs \<noteq> [] \<longrightarrow> hd vs = hv"
    by simp
  from Cons.prems e have here: "EqualFold key ''host'' \<and> vals \<noteq> [] \<longrightarrow> hd vals = hv"
    by simp
  show ?case
    unfolding e using Cons.IH [OF rest] here
    by (auto simp: Let_def)
qed

lemma matchesAny_iff: "matchesAny name ds \<longleftrightarrow> (\<exists>d \<in> set ds. EqualFold name d)"
  by (induction ds) auto

lemma isHopByHopHeader_iff:
  "isHopByHopHeader name \<longleftrightarrow> (\<exists>d \<in> set hopByHopHeaders. EqualFold name d)"
  by (simp add: isHopByHopHeader_def matchesAny_iff)

lemma lowerASCII_ascii:
  assumes "lowerASCII c = lowerASCII d" and "(of_char d :: nat) < 128"
  shows "(of_char c :: nat) < 128"
  using assms by (auto simp: lowerASCII_def isUpperASCII_def split: if_splits)

lemma EqualFold_sameNameAnyCase:
  "isASCII d \<Longrightarrow> sameNameAnyCase s d \<Longrightarrow> EqualFold s d"
proof (induction s arbitrary: d)
  case Nil
  then show ?case by (simp add: sameNameAnyCase_def)
next
  case (Cons c cs)
  then obtain e ds where d: "d = e # ds" by (cases d) (auto simp: sameNameAnyCase_def)
  from Cons.prems d have eq: "lowerASCII c = lowerASCII e" and rest: "sameNameAnyCase cs ds"
    and ae: "(of_char e :: nat) < 128" and ads: "isASCII ds"
    by (auto simp: sameNameAnyCase_def isASCII_def)
  from lowerASCII_ascii [OF eq ae] have "(of_char c :: nat) < 128" .
  then show ?case using d eq Cons.IH [OF ads rest] by simp
qed

lemma hopByHopHeaders_ascii: "d \<in> set hopByHopHeaders \<Longrightarrow> isASCII d"
  by (auto simp: hopByHopHeaders_def isASCII_def)

lemma Host_not_hop: "\<not> isHopByHopHeader ''Host''"
  by (simp add: isHopByHopHeader_def hopByHopHeaders_def lowerASCII_def isUpperASCII_def)

lemma ContentLength_not_hop: "\<not> isHopByHopHeader ''Content-Length''"
  by (simp add: isHopByHopHeader_def hopByHopHeaders_def lowerASCII_def isUpperASCII_def)

lemma copyHeaders_loop_split:
  "copyHeaders_loop hs ('''', h) = (capturedHost hs, snd (copyHeaders_loop hs ('''', h)))"
  unfolding capturedHost_def
  using copyHeaders_loop_fst_indep [of hs "''''" h Map.empty]
  by (simp add: prod_eq_iff)

lemma copyHeaders_Host:
  "req_Host (copyHeaders req headers) =
     (if capturedHost headers \<noteq> '''' then capturedHost headers else req_Host req)"
  unfolding copyHeaders_def
  by (subst copyHeaders_loop_split) simp

lemma copyHeaders_Header:
  "req_Header (copyHeaders req headers) =
     (if capturedHost headers \<noteq> ''''
      then (snd (copyHeaders_loop headers ('''', req_Header req)))(''Host'' \<mapsto> [capturedHost headers])
      else snd (copyHeaders_loop headers ('''', req_Header req)))"
  unfolding copyHeaders_def
  by (subst copyHeaders_loop_split) simp

lemma copyHeaders_ContentLength:
  "req_ContentLength (copyHeaders req headers) = req_ContentLength req"
  unfolding copyHeaders_def
  by (subst copyHeaders_loop_split) simp

lemma copyHeaders_URL:
  "req_URL (copyHeaders req headers) = req_URL req"
  unfolding copyHeaders_def
  by (subst copyHeaders_loop_split) simp

lemma copyHeaders_Header_at:
  assumes "wf_headers headers"
  shows "req_Header (copyHeaders req headers) k =
           (if k = ''Host'' \<and> capturedHost headers \<noteq> '''' then Some [capturedHost headers]
            else (case map_of headers k of
                    Some (v # vs) \<Rightarrow> if isHopByHopHeader k then req_Header req k else Some [v]
                  | _ \<Rightarrow> req_Header req k))"
  using copyHeaders_loop_header [of headers "''''" "req_Header req" k] assms
  by (simp add: copyHeaders_Header wf_headers_def)

lemma copyHeaders_singleValued:
  "singleValued (req_Header req) \<Longrightarrow> singleValued (req_Header (copyHeaders req headers))"
  using copyHeaders_loop_singleValued [of "req_Header req" headers "''''"]
  by (simp add: copyHeaders_Header singleValued_upd del: fun_upd_apply)

lemma copyHeaders_hop_absent:
  "isHopByHopHeader k \<Longrightarrow> req_Header req k = None \<Longrightarrow> req_Header (copyHeaders req headers) k = None"
  using copyHeaders_loop_hop_untouched [of k headers "''''" "req_Header req"] Host_not_hop
  by (auto simp: copyHeaders_Header)

lemma Header_Get_entry:
  assumes "wf_headers headers" and "(key, v # vs) \<in> set headers"
  shows "Header_Get headers key = v"
  using assms by (simp add: Header_Get_def wf_headers_def)

lemma ForwardRequest_request_fields:
  assumes "ForwardRequest_request urlHost c method path b headers qs = Inr req"
  shows "req_URL req = fullURL c path qs"
    and "\<exists>h0. urlHost method (fullURL c path qs) = Some h0 \<and>
           req_Host req = (if capturedHost headers \<noteq> '''' then capturedHost headers else h0)"
    and "req_ContentLength req =
           (if Header_Get headers ''Content-Length'' \<noteq> ''''
            then (case ParseInt (Header_Get headers ''Content-Length'') of
                    Some n \<Rightarrow> n | None \<Rightarrow> bodyLength b)
            else bodyLength b)"
    and "req_Header req k =
           (if k = ''X-Forwarded-Proto'' \<or> k = ''X-Forwarded-Scheme'' \<or> k = ''X-Scheme'' then None
            else if k = ''Content-Length'' \<and> Header_Get headers ''Content-Length'' \<noteq> ''''
              then Some [Header_Get headers ''Content-Length'']
            else if k = ''Host'' \<and> capturedHost headers \<noteq> '''' then Some [capturedHost headers]
            else snd (copyHeaders_loop headers ('''', Map.empty)) k)"
proof -
  from assms obtain h0 where u: "urlHost method (fullURL c path qs) = Some h0"
    unfolding ForwardRequest_request_def NewRequest_def by (auto split: option.splits)
  define req0 where "req0 = \<lparr>req_Method = (if method = [] then ''GET'' else method),
     req_URL = fullURL c path qs, req_Host = h0, req_Header = Map.empty,
     req_ContentLength = bodyLength b, req_Body = b\<rparr>"
  have n: "NewRequest urlHost method (fullURL c path qs) b = Inr req0"
    unfolding NewRequest_def req0_def using u by simp
  define req1 where "req1 = copyHeaders req0 headers"
  have r: "req =
    (let originalContentLength = Header_Get headers ''Content-Length'';
         req2 = (if originalContentLength \<noteq> ''''
                 then let r = req1\<lparr>req_Header :=
                             Header_Set (req_Header req1) ''Content-Length'' originalContentLength\<rparr>
                      in (case ParseInt originalContentLength of
                            Some n \<Rightarrow> r\<lparr>req_ContentLength := n\<rparr> | None \<Rightarrow> r)
                 else req1)
     in req2\<lparr>req_Header := Header_Del (Header_Del (Header_Del (req_Header req2)
                         ''X-Forwarded-Proto'') ''X-Forwarded-Scheme'') ''X-Scheme''\<rparr>)"
    using assms unfolding ForwardRequest_request_def n req1_def by (simp add: Let_def)
  have h1: "req_Host req1 = (if capturedHost headers \<noteq> '''' then capturedHost headers else h0)"
    unfolding req1_def by (simp add: copyHeaders_Host req0_def)
  have u1: "req_URL req1 = fullURL c path qs"
    unfolding req1_def by (simp add: copyHeaders_URL req0_def)
  have c1: "req_ContentLength req1 = bodyLength b"
    unfolding req1_def by (simp add: copyHeaders_ContentLength req0_def)
  have hd1: "\<And>k. req_Header req1 k =
      (if k = ''Host'' \<and> capturedHost headers \<noteq> '''' then Some [capturedHost headers]
       else snd (copyHeaders_loop headers ('''', Map.empty)) k)"
    unfolding req1_def by (simp add: copyHeaders_Header req0_def)
  show "req_URL req = fullURL c path qs"
    unfolding r using u1 by (simp add: Let_def split: option.splits)
  show "\<exists>h0. urlHost method (fullURL c path qs) = Some h0 \<and>
           req_Host req = (if capturedHost headers \<noteq> '''' then capturedHost headers else h0)"
    unfolding r using u h1 by (simp add: Let_def split: option.splits)
  show "req_ContentLength req =
           (if Header_Get headers ''Content-Length'' \<noteq> ''''
            then (case ParseInt (Header_Get headers ''Content-Length'') of
                    Some n \<Rightarrow> n | None \<Rightarrow> bodyLength b)
            else bodyLength b)"
    unfolding r using c1 by (simp add: Let_def split: option.splits)
  show "req_Header req k =
           (if k = ''X-Forwarded-Proto'' \<or> k = ''X-Forwarded-Scheme'' \<or> k = ''X-Scheme'' then None
            else if k = ''Content-Length'' \<and> Header_Get headers ''Content-Length'' \<noteq> ''''
              then Some [Header_Get headers ''Content-Length'']
            else if k = ''Host'' \<and> capturedHost headers \<noteq> '''' then Some [capturedHost headers]
            else snd (copyHeaders_loop headers ('''', Map.empty)) k)"
    unfolding r
    by (auto simp: hd1 Let_def Header_Set_def Header_Del_def split: option.splits)
qed

subsection \<open>Evaluating the forwarding core at concrete inputs\<close>

lemmas forward_eval =
  ForwardRequest_request_def NewRequest_def minioUrlHost_def HasPrefix_def fullURL_def
  copyHeaders_def capturedHost_def wf_headers_def
  lowerASCII_def isUpperASCII_def isHopByHopHeader_def hopByHopHeaders_def Let_def
  Header_Get_def Header_Del_def Header_Set_def ParseInt_def fun_eq_iff

lemma EqualFold_Host_host: "EqualFold ''Host'' ''host''"
  by (simp add: lowerASCII_def isUpperASCII_def)

lemma capturedHost_unique:
  assumes "wf_headers headers" and "(key, v # vs) \<in> set headers" and "EqualFold key ''host''"
    and "\<forall>(k, vals) \<in> set headers. EqualFold k ''host'' \<and> vals \<noteq> [] \<longrightarrow> k = key"
  shows "capturedHost headers = v"
proof -
  have "\<forall>(k, vals) \<in> set headers. EqualFold k ''host'' \<and> vals \<noteq> [] \<longrightarrow> hd vals = v"
  proof (clarify)
    fix k vals assume m: "(k, vals) \<in> set headers" and "EqualFold k ''host''" and "vals \<noteq> []"
    with assms(4) have "k = key" by auto
    with m assms(1,2) have "vals = v # vs"
      by (metis wf_headers_def map_of_is_SomeI option.inject)
    then show "hd vals = v" by simp
  qed
  from copyHeaders_loop_host_agree [OF this, of "''''" Map.empty] assms(2,3)
  show ?thesis unfolding capturedHost_def by auto
qed

subsection \<open>C1: header names are forwarded byte for byte\<close>

text \<open>
  Claim C1, as amended. For every inbound header that has a value and whose name is not
  on the deny-list, the outbound request built by \<^verbatim>\<open>copyHeaders\<close> contains a header whose
  name is byte for byte the inbound name (the map is written at the key as it stands,
  never at a canonical form of it). Its value is the first value of the inbound header,
  with one exception: the header literally named \<^verbatim>\<open>Host\<close> carries the captured host
  value whenever that is non-empty. The two agree whenever no inbound header other than
  the literal \<^verbatim>\<open>Host\<close> is named \<^verbatim>\<open>host\<close> in some letter case.
\<close>

theorem copyHeaders_preserves_name:
  assumes "wf_headers headers" and "(key, v # vs) \<in> set headers" and "\<not> isHopByHopHeader key"
  shows "req_Header (copyHeaders req headers) key =
           Some [if key = ''Host'' \<and> capturedHost headers \<noteq> '''' then capturedHost headers else v] \<and>
         ((\<forall>(k, vals) \<in> set headers. EqualFold k ''host'' \<and> vals \<noteq> [] \<longrightarrow> k = ''Host'') \<longrightarrow>
            req_Header (copyHeaders req headers) key = Some [v])"
proof -
  from assms(1,2) have "map_of headers key = Some (v # vs)"
    by (simp add: wf_headers_def)
  then have main: "req_Header (copyHeaders req headers) key =
      Some [if key = ''Host'' \<and> capturedHost headers \<noteq> '''' then capturedHost headers else v]"
    using copyHeaders_Header_at [OF assms(1), of req key] assms(3) by simp
  have "req_Header (copyHeaders req headers) key = Some [v]"
    if u: "\<forall>(k, vals) \<in> set headers. EqualFold k ''host'' \<and> vals \<noteq> [] \<longrightarrow> k = ''Host''"
  proof (cases "key = ''Host''")
    case True
    have "capturedHost headers = v"
      using capturedHost_unique [OF assms(1), of key v vs] assms(2) u True EqualFold_Host_host
      by simp
    then show ?thesis using main by simp
  next
    case False
    then show ?thesis using main by simp
  qed
  with main show ?thesis by blast
qed

text \<open>The theorem at an inbound set holding \<^verbatim>\<open>X-Amz-Date\<close> and \<^verbatim>\<open>Host\<close>: the name
  \<^verbatim>\<open>X-Amz-Date\<close> is on the outbound request as it was spelled, with its value.\<close>

theorem copyHeaders_preserves_name_witness:
  "req_Header (copyHeaders newMinioRequest
      [(''X-Amz-Date'', [''20250101T000000Z'']), (''Host'', [''s3.example.com''])]) ''X-Amz-Date''
     = Some [''20250101T000000Z'']"
proof -
  have w: "wf_headers [(''X-Amz-Date'', [''20250101T000000Z'']), (''Host'', [''s3.example.com''])]"
    by (simp add: wf_headers_def)
  have m: "(''X-Amz-Date'', [''20250101T000000Z'']) \<in>
      set [(''X-Amz-Date'', [''20250101T000000Z'']), (''Host'', [''s3.example.com''])]"
    by simp
  have n: "\<not> isHopByHopHeader ''X-Amz-Date''"
    by (simp add: isHopByHopHeader_def hopByHopHeaders_def lowerASCII_def isUpperASCII_def)
  show ?thesis
    using copyHeaders_preserves_name [OF w m n, of newMinioRequest] by simp
qed

text \<open>The claim as stated fails where the inbound map holds both \<^verbatim>\<open>Host\<close> and \<^verbatim>\<open>host\<close>
  and the loop visits \<^verbatim>\<open>host\<close> last: \<^verbatim>\<open>Host\<close> is not on the deny-list and came in with
  the value \<^verbatim>\<open>a.example\<close>, yet the outbound header \<^verbatim>\<open>Host\<close> holds \<^verbatim>\<open>b.example\<close>.\<close>

theorem copyHeaders_preserves_value_counterexample:
  "wf_headers [(''Host'', [''a.example'']), (''host'', [''b.example''])] \<and>
   \<not> isHopByHopHeader ''Host'' \<and>
   req_Header (copyHeaders newMinioRequest
      [(''Host'', [''a.example'']), (''host'', [''b.example''])]) ''Host'' = Some [''b.example'']"
  by (simp add: forward_eval newMinioRequest_def)

subsection \<open>C3: the inbound host overrides the host of the endpoint\<close>

text \<open>
  Claim C3, as amended. For every forwarded request whose inbound header set contains a
  header named \<^verbatim>\<open>host\<close> in some letter case with a non-empty first value \<open>h\<close>, and in
  which every inbound header so named carries that same first value (in particular when
  there is only one), the transport-level host of the outbound request and its \<^verbatim>\<open>Host\<close>
  header both equal \<open>h\<close>, whatever host the library derived from the backend endpoint.
\<close>

theorem ForwardRequest_host_override:
  assumes "ForwardRequest_request urlHost c method path b headers queryString = Inr req"
    and "(name, h # vs) \<in> set headers" and "EqualFold name ''host''" and "h \<noteq> ''''"
    and "\<forall>(k, vals) \<in> set headers. EqualFold k ''host'' \<and> vals \<noteq> [] \<longrightarrow> hd vals = h"
  shows "req_Host req = h \<and> req_Header req ''Host'' = Some [h]"
proof -
  have "capturedHost headers = h"
    using copyHeaders_loop_host_agree [OF assms(5), of "''''" Map.empty] assms(2,3)
    unfolding capturedHost_def by auto
  with assms(4) show ?thesis
    using ForwardRequest_request_fields(2) [OF assms(1)]
      ForwardRequest_request_fields(4) [OF assms(1), of "''Host''"] by auto
qed

text \<open>The theorem at an inbound \<^verbatim>\<open>host\<close> header in lower case and the endpoint
  \<^verbatim>\<open>http://minio:9000\<close>.\<close>

theorem ForwardRequest_host_override_witness:
  "\<exists>req. ForwardRequest_request minioUrlHost \<lparr>endpoint = ''http://minio:9000''\<rparr> ''GET''
            ''/bucket1'' NoBody [(''host'', [''s3.example.com''])] [] = Inr req \<and>
         req_Host req = ''s3.example.com'' \<and> req_Header req ''Host'' = Some [''s3.example.com'']"
proof -
  obtain req where r: "ForwardRequest_request minioUrlHost \<lparr>endpoint = ''http://minio:9000''\<rparr>
      ''GET'' ''/bucket1'' NoBody [(''host'', [''s3.example.com''])] [] = Inr req"
    by (simp add: ForwardRequest_request_def NewRequest_def minioUrlHost_def HasPrefix_def
          fullURL_def Let_def)
  have m: "(''host'', [''s3.example.com'']) \<in> set [(''host'', [''s3.example.com''])]" by simp
  have f: "EqualFold ''host'' ''host''" by (simp add: lowerASCII_def isUpperASCII_def)
  have a: "\<forall>(k, vals) \<in> set [(''host'', [''s3.example.com''])].
      EqualFold k ''host'' \<and> vals \<noteq> [] \<longrightarrow> hd vals = ''s3.example.com''" by simp
  from ForwardRequest_host_override [OF r m f _ a] r show ?thesis by simp
qed

text \<open>The claim as stated fails where two inbound headers are named \<^verbatim>\<open>host\<close> in different
  letter cases: the set contains a \<^verbatim>\<open>Host\<close> header with the non-empty value
  \<^verbatim>\<open>a.example\<close>, which differs from the endpoint, and the outbound host is \<^verbatim>\<open>b.example\<close>.\<close>

theorem ForwardRequest_host_override_counterexample:
  "EqualFold ''Host'' ''host'' \<and>
   map_sum id req_Host
     (ForwardRequest_request minioUrlHost \<lparr>endpoint = ''http://minio:9000''\<rparr> ''GET''
        ''/bucket1'' NoBody [(''Host'', [''a.example'']), (''host'', [''b.example''])] [])
     = Inr ''b.example''"
  by (simp add: forward_eval)

subsection \<open>C4: what the deny-list keeps from the backend\<close>

text \<open>
  Claim C4, as amended. For every inbound request, the outbound request built by
  \<^verbatim>\<open>ForwardRequest\<close> contains no header whose name matches, under any letter casing, one
  of the seventeen names of the fixed deny-list (\<^verbatim>\<open>Connection\<close>, \<^verbatim>\<open>Transfer-Encoding\<close>,
  \<^verbatim>\<open>Upgrade\<close>, \<^verbatim>\<open>Proxy-Connection\<close>, \<^verbatim>\<open>TE\<close>, \<^verbatim>\<open>Trailer\<close>, \<^verbatim>\<open>Keep-Alive\<close>, \<^verbatim>\<open>Cf-Visitor\<close>,
  \<^verbatim>\<open>X-Forwarded-Host\<close>, \<^verbatim>\<open>X-Forwarded-Port\<close>, \<^verbatim>\<open>X-Forwarded-For\<close>, \<^verbatim>\<open>X-Real-Ip\<close>,
  \<^verbatim>\<open>X-Request-Id\<close>, \<^verbatim>\<open>Cf-Connecting-Ip\<close>, \<^verbatim>\<open>Cf-Ipcountry\<close>, \<^verbatim>\<open>Cf-Ray\<close>, \<^verbatim>\<open>Cdn-Loop\<close>), and
  no header literally named \<^verbatim>\<open>X-Forwarded-Proto\<close>, \<^verbatim>\<open>X-Forwarded-Scheme\<close> or \<^verbatim>\<open>X-Scheme\<close>.
\<close>

theorem ForwardRequest_deny_list:
  assumes "ForwardRequest_request urlHost c method path b headers queryString = Inr req"
  shows "(\<forall>name. isHopByHopHeader name \<or> (\<exists>d \<in> set hopByHopHeaders. sameNameAnyCase name d)
            \<longrightarrow> req_Header req name = None) \<and>
         req_Header req ''X-Forwarded-Proto'' = None \<and>
         req_Header req ''X-Forwarded-Scheme'' = None \<and>
         req_Header req ''X-Scheme'' = None"
proof -
  have hop: "req_Header req name = None" if h: "isHopByHopHeader name" for name
  proof -
    from h Host_not_hop have 1: "name \<noteq> ''Host''" by auto
    from h ContentLength_not_hop have 2: "name \<noteq> ''Content-Length''" by auto
    have 3: "snd (copyHeaders_loop headers ('''', Map.empty)) name = None"
      using copyHeaders_loop_hop_untouched [OF h, of headers "''''" Map.empty] by simp
    show ?thesis
      using ForwardRequest_request_fields(4) [OF assms, of name] 1 2 3 by simp
  qed
  have "isHopByHopHeader name" if "\<exists>d \<in> set hopByHopHeaders. sameNameAnyCase name d" for name
    using that EqualFold_sameNameAnyCase hopByHopHeaders_ascii isHopByHopHeader_iff by blast
  with hop have "\<forall>name. isHopByHopHeader name \<or> (\<exists>d \<in> set hopByHopHeaders. sameNameAnyCase name d)
            \<longrightarrow> req_Header req name = None" by blast
  moreover have "req_Header req ''X-Forwarded-Proto'' = None"
    using ForwardRequest_request_fields(4) [OF assms, of "''X-Forwarded-Proto''"] by simp
  moreover have "req_Header req ''X-Forwarded-Scheme'' = None"
    using ForwardRequest_request_fields(4) [OF assms, of "''X-Forwarded-Scheme''"] by simp
  moreover have "req_Header req ''X-Scheme'' = None"
    using ForwardRequest_request_fields(4) [OF assms, of "''X-Scheme''"] by simp
  ultimately show ?thesis by blast
qed

text \<open>The theorem at an inbound set with a lower-case \<^verbatim>\<open>connection\<close>, an
  \<^verbatim>\<open>X-Forwarded-Proto\<close> and an \<^verbatim>\<open>Authorization\<close> header: the first two are gone, the third
  is kept.\<close>

theorem ForwardRequest_deny_list_witness:
  "\<exists>req. ForwardRequest_request minioUrlHost \<lparr>endpoint = ''http://minio:9000''\<rparr> ''GET''
            ''/bucket1'' NoBody
            [(''connection'', [''keep-alive'']), (''X-Forwarded-Proto'', [''https'']),
             (''Authorization'', [''AWS4-HMAC-SHA256 Credential=k'' ])] [] = Inr req \<and>
         isHopByHopHeader ''connection'' \<and>
         req_Header req ''connection'' = None \<and>
         req_Header req ''X-Forwarded-Proto'' = None \<and>
         req_Header req ''Authorization'' = Some [''AWS4-HMAC-SHA256 Credential=k'']"
proof -
  obtain req where r: "ForwardRequest_request minioUrlHost \<lparr>endpoint = ''http://minio:9000''\<rparr>
      ''GET'' ''/bucket1'' NoBody
      [(''connection'', [''keep-alive'']), (''X-Forwarded-Proto'', [''https'']),
       (''Authorization'', [''AWS4-HMAC-SHA256 Credential=k'' ])] [] = Inr req"
    by (simp add: ForwardRequest_request_def NewRequest_def minioUrlHost_def HasPrefix_def
          fullURL_def Let_def)
  have h: "isHopByHopHeader ''connection''"
    by (simp add: isHopByHopHeader_def hopByHopHeaders_def lowerASCII_def isUpperASCII_def)
  have a: "req_Header req ''Authorization'' = Some [''AWS4-HMAC-SHA256 Credential=k'']"
    using r by (auto simp: forward_eval)
  from ForwardRequest_deny_list [OF r] h a r show ?thesis by blast
qed

text \<open>The claim as stated, with its patterns \<^verbatim>\<open>X-Forwarded-*\<close> and \<^verbatim>\<open>Cf-*\<close>, fails: the
  list of the code is a list of names, and \<^verbatim>\<open>X-Forwarded-Server\<close> is not one of them.\<close>

theorem ForwardRequest_deny_list_counterexample:
  "ForwardRequest_request minioUrlHost \<lparr>endpoint = ''http://minio:9000''\<rparr> ''GET'' ''/bucket1''
      NoBody [(''X-Forwarded-Server'', [''edge-1''])] [] =
    Inr \<lparr>req_Method = ''GET'', req_URL = ''http://minio:9000/bucket1'', req_Host = ''minio:9000'',
         req_Header = [''X-Forwarded-Server'' \<mapsto> [''edge-1'']], req_ContentLength = 0,
         req_Body = NoBody\<rparr>"
  by (simp add: forward_eval)

text \<open>The three scheme-hint headers are removed by \<^verbatim>\<open>Header.Del\<close>, at their canonical
  spelling only: in another letter case they are neither on the list of
  \<^verbatim>\<open>isHopByHopHeader\<close> nor removed, and reach the backend.\<close>

lemma ForwardRequest_lower_case_scheme_hint:
  "ForwardRequest_request minioUrlHost \<lparr>endpoint = ''http://minio:9000''\<rparr> ''GET'' ''/bucket1''
      NoBody [(''x-forwarded-proto'', [''https''])] [] =
    Inr \<lparr>req_Method = ''GET'', req_URL = ''http://minio:9000/bucket1'', req_Host = ''minio:9000'',
         req_Header = [''x-forwarded-proto'' \<mapsto> [''https'']], req_ContentLength = 0,
         req_Body = NoBody\<rparr>"
  by (simp add: forward_eval)

subsection \<open>C5: the content length\<close>

text \<open>
  \<^verbatim>\<open>ForwardRequest\<close> reads the inbound content length with
  \<^verbatim>\<open>headers.Get("Content-Length")\<close>, which looks the map up at that spelling. For an
  inbound header spelled so, with first value \<open>n\<close>, the outbound request carries a
  \<^verbatim>\<open>Content-Length\<close> header equal to \<open>n\<close>, and when \<^verbatim>\<open>strconv.ParseInt\<close> accepts \<open>n\<close> the
  numeric content length of the outbound request is that integer, whatever length the
  library had derived from the body.
\<close>

lemma ForwardRequest_ContentLength_canonical:
  assumes "wf_headers headers" and "(''Content-Length'', n # vs) \<in> set headers"
    and "ForwardRequest_request urlHost c method path b headers queryString = Inr req"
  shows "req_Header req ''Content-Length'' = Some [n] \<and>
         (\<forall>len. ParseInt n = Some len \<longrightarrow> req_ContentLength req = len)"
proof -
  have g: "Header_Get headers ''Content-Length'' = n"
    using Header_Get_entry [OF assms(1,2)] .
  have m: "map_of headers ''Content-Length'' = Some (n # vs)"
    using assms(1,2) by (simp add: wf_headers_def)
  have l: "snd (copyHeaders_loop headers ('''', Map.empty)) ''Content-Length'' = Some [n]"
    using copyHeaders_loop_header [of headers "''''" Map.empty "''Content-Length''"] assms(1) m
      ContentLength_not_hop by (simp add: wf_headers_def)
  have e: "ParseInt '''' = None" by (simp add: ParseInt_def)
  have "req_Header req ''Content-Length'' = Some [n]"
    using ForwardRequest_request_fields(4) [OF assms(3), of "''Content-Length''"] g l by simp
  moreover have "\<forall>len. ParseInt n = Some len \<longrightarrow> req_ContentLength req = len"
    using ForwardRequest_request_fields(3) [OF assms(3)] g e by auto
  ultimately show ?thesis by blast
qed

text \<open>At a streamed body of ten bytes, whose length \<^verbatim>\<open>NewRequest\<close> does not know, and the
  inbound header \<^verbatim>\<open>Content-Length: 10\<close>, the numeric field is 10.\<close>

lemma ForwardRequest_ContentLength_canonical_example:
  "ForwardRequest_request minioUrlHost \<lparr>endpoint = ''http://minio:9000''\<rparr> ''PUT''
      ''/bucket1/file.txt'' (OtherReader ''0123456789'') [(''Content-Length'', [''10''])] [] =
    Inr \<lparr>req_Method = ''PUT'', req_URL = ''http://minio:9000/bucket1/file.txt'',
         req_Host = ''minio:9000'', req_Header = [''Content-Length'' \<mapsto> [''10'']],
         req_ContentLength = 10, req_Body = OtherReader ''0123456789''\<rparr>"
  by (simp add: forward_eval)


text \<open>The same with a \<^verbatim>\<open>*bytes.Reader\<close> body, as the handlers and the metadata service pass
  it: the numeric field is the length of the body (3), not the inbound value (10).\<close>

lemma ForwardRequest_lower_case_content_length_bytes:
  "ForwardRequest_request minioUrlHost \<lparr>endpoint = ''http://minio:9000''\<rparr> ''PUT''
      ''/bucket1/file.txt'' (BytesReader ''abc'') [(''content-length'', [''10''])] [] =
    Inr \<lparr>req_Method = ''PUT'', req_URL = ''http://minio:9000/bucket1/file.txt'',
         req_Host = ''minio:9000'', req_Header = [''content-length'' \<mapsto> [''10'']],
         req_ContentLength = 3, req_Body = BytesReader ''abc''\<rparr>"
  by (simp add: forward_eval)

subsection \<open>C6: the outbound URL\<close>

text \<open>
  Claim C6, as amended. For every forwarded request the outbound URL is the configured
  endpoint followed by the path, and by a question mark and the query string when there
  is one, whatever edge hints about the original scheme the inbound headers carry and
  whether the endpoint is plain HTTP or HTTPS: the URL is never rewritten to another
  scheme.
\<close>

theorem ForwardRequest_url_is_endpoint:
  assumes "ForwardRequest_request urlHost c method path b headers queryString = Inr req"
  shows "req_URL req = endpoint c @ path @ (if queryString \<noteq> [] then ''?'' @ queryString else [])"
  using ForwardRequest_request_fields(1) [OF assms] by (simp add: fullURL_def)

text \<open>The theorem at a listing request with a query string.\<close>

theorem ForwardRequest_url_is_endpoint_witness:
  "\<exists>req. ForwardRequest_request minioUrlHost \<lparr>endpoint = ''http://minio:9000''\<rparr> ''GET''
            ''/bucket1'' NoBody [(''Cf-Visitor'', [''https''])] ''list-type=2'' = Inr req \<and>
         req_URL req = ''http://minio:9000/bucket1?list-type=2''"
proof -
  obtain req where r: "ForwardRequest_request minioUrlHost \<lparr>endpoint = ''http://minio:9000''\<rparr>
      ''GET'' ''/bucket1'' NoBody [(''Cf-Visitor'', [''https''])] ''list-type=2'' = Inr req"
    by (simp add: ForwardRequest_request_def NewRequest_def minioUrlHost_def HasPrefix_def
          fullURL_def Let_def)
  from ForwardRequest_url_is_endpoint [OF r] r show ?thesis by simp
qed

text \<open>The claim as stated fails: with the forwarded-protocol header equal to \<^verbatim>\<open>https\<close>
  and a plain HTTP endpoint the outbound URL is still the HTTP one.\<close>

theorem ForwardRequest_scheme_upgrade_counterexample:
  "ForwardRequest_request minioUrlHost \<lparr>endpoint = ''http://minio:9000''\<rparr> ''GET'' ''/bucket1''
      NoBody [(''X-Forwarded-Proto'', [''https''])] [] =
    Inr \<lparr>req_Method = ''GET'', req_URL = ''http://minio:9000/bucket1'', req_Host = ''minio:9000'',
         req_Header = Map.empty, req_ContentLength = 0, req_Body = NoBody\<rparr>"
  by (simp add: forward_eval)

subsection \<open>C9: one value for each forwarded header\<close>

text \<open>
  Claim C9, as amended. \<^verbatim>\<open>copyHeaders\<close>, on the empty header of a new request, gives a
  header in which every name has exactly one value, so the outbound request never
  carries a multi-valued header derived from the inbound set. For every inbound header
  name mapped to two or more values and not on the deny-list it places exactly the first
  value under that name and drops all subsequent values (the header literally named
  \<^verbatim>\<open>Host\<close> carries the captured host value when that is non-empty); a name on the
  deny-list is not placed at all.
\<close>

theorem copyHeaders_first_value_only:
  assumes "wf_headers headers" and "req_Header req = Map.empty"
  shows "singleValued (req_Header (copyHeaders req headers)) \<and>
         (\<forall>key v w vs. (key, v # w # vs) \<in> set headers \<and> \<not> isHopByHopHeader key \<longrightarrow>
            req_Header (copyHeaders req headers) key =
              Some [if key = ''Host'' \<and> capturedHost headers \<noteq> '''' then capturedHost headers else v]) \<and>
         (\<forall>key. isHopByHopHeader key \<longrightarrow> req_Header (copyHeaders req headers) key = None)"
proof -
  have s: "singleValued (req_Header (copyHeaders req headers))"
    using copyHeaders_singleValued [of req headers] assms(2) by (simp add: singleValued_def)
  have f: "req_Header (copyHeaders req headers) key =
      Some [if key = ''Host'' \<and> capturedHost headers \<noteq> '''' then capturedHost headers else v]"
    if "(key, v # w # vs) \<in> set headers" and "\<not> isHopByHopHeader key" for key v w vs
  proof -
    from that(1) assms(1) have "map_of headers key = Some (v # w # vs)"
      by (simp add: wf_headers_def)
    then show ?thesis
      using copyHeaders_Header_at [OF assms(1), of req key] that(2) by simp
  qed
  have h: "req_Header (copyHeaders req headers) key = None" if "isHopByHopHeader key" for key
    using copyHeaders_hop_absent [OF that, of req headers] assms(2) by simp
  from s f h show ?thesis by blast
qed

text \<open>The theorem at an inbound \<^verbatim>\<open>X-Amz-Meta-Tag\<close> with two values.\<close>

theorem copyHeaders_first_value_only_witness:
  "singleValued (req_Header (copyHeaders newMinioRequest [(''X-Amz-Meta-Tag'', [''a'', ''b''])])) \<and>
   req_Header (copyHeaders newMinioRequest [(''X-Amz-Meta-Tag'', [''a'', ''b''])]) ''X-Amz-Meta-Tag''
     = Some [''a'']"
proof -
  have w: "wf_headers [(''X-Amz-Meta-Tag'', [''a'', ''b''])]" by (simp add: wf_headers_def)
  have e: "req_Header newMinioRequest = Map.empty" by (simp add: newMinioRequest_def)
  have n: "\<not> isHopByHopHeader ''X-Amz-Meta-Tag''"
    by (simp add: isHopByHopHeader_def hopByHopHeaders_def lowerASCII_def isUpperASCII_def)
  have m: "(''X-Amz-Meta-Tag'', [''a'', ''b'']) \<in> set [(''X-Amz-Meta-Tag'', [''a'', ''b''])]"
    by simp
  from copyHeaders_first_value_only [OF w e] n m show ?thesis by auto
qed

text \<open>The claim as stated, for every inbound name with two or more values, fails at a
  name of the deny-list: of \<^verbatim>\<open>Connection: keep-alive, close\<close> nothing is placed on the
  outbound request, not the first value either.\<close>

theorem copyHeaders_first_value_counterexample:
  "req_Header (copyHeaders newMinioRequest [(''Connection'', [''keep-alive'', ''close''])])
     ''Connection'' = None"
  by (simp add: forward_eval newMinioRequest_def)

subsection \<open>From the request lines to the outbound header\<close>

text \<open>\<^verbatim>\<open>extractHeaders\<close> keeps every name as the request line spells it, with the values
  of the lines of that name in their order; \<^verbatim>\<open>copyHeaders\<close>, over any iteration order of
  that map, forwards a name that is neither on the deny-list nor \<^verbatim>\<open>Host\<close> with the
  value of its first line.\<close>

lemma extractHeaders_loop_values:
  "extractHeaders_loop visited headers key =
     (if key \<in> fst ` set visited
      then Some ((case headers key of None \<Rightarrow> [] | Some vs \<Rightarrow> vs)
                 @ map snd (filter (\<lambda>line. fst line = key) visited))
      else headers key)"
proof (induction visited arbitrary: headers)
  case Nil
  then show ?case by simp
next
  case (Cons line visited)
  obtain k v where l: "line = (k, v)" by (cases line)
  show ?case unfolding l
    by (auto simp: Cons.IH image_iff filter_empty_conv split: option.splits)
qed

lemma extractHeaders_values:
  "extractHeaders visited key =
     (if key \<in> fst ` set visited
      then Some (map snd (filter (\<lambda>line. fst line = key) visited))
      else None)"
  by (simp add: extractHeaders_def extractHeaders_loop_values)

lemma extractHeaders_then_copyHeaders:
  assumes "enumerates headers (extractHeaders visited)"
    and "(key, v) \<in> set visited" and "\<not> isHopByHopHeader key" and "key \<noteq> ''Host''"
  shows "\<exists>first. req_Header (copyHeaders req headers) key = Some [first] \<and>
           first = hd (map snd (filter (\<lambda>line. fst line = key) visited))"
proof -
  let ?vals = "map snd (filter (\<lambda>line. fst line = key) visited)"
  from assms(2) have in_dom: "key \<in> fst ` set visited" by force
  from assms(2) have "(key, v) \<in> set (filter (\<lambda>line. fst line = key) visited)" by simp
  then have ne: "?vals \<noteq> []" by (force simp: filter_empty_conv)
  from assms(1) have w: "wf_headers headers" and m: "map_of headers key = Some ?vals"
    using in_dom by (simp_all add: enumerates_def extractHeaders_values)
  from ne obtain x xs where c: "?vals = x # xs" by (cases ?vals) auto
  show ?thesis
    using copyHeaders_Header_at [OF w, of req key] m c assms(3,4) by simp
qed

subsection \<open>The earlier revision: one value for each header as well\<close>

text \<open>The earlier \<^verbatim>\<open>copyHeaders\<close> stores under the canonical form of the name, and like the
  later one it stores the first value only.\<close>

lemma copyHeaders_old_loop_singleValued:
  "singleValued h \<Longrightarrow> singleValued (snd (copyHeaders_old_loop canonical hs (oh, h)))"
proof (induction hs arbitrary: oh h)
  case Nil
  then show ?case by simp
next
  case (Cons e hs)
  obtain key vals where e: "e = (key, vals)" by (cases e)
  have up: "singleValued (h(canonical key \<mapsto> [hd vals]))"
    using Cons.prems by (rule singleValued_upd)
  show ?case
    unfolding e using Cons.IH [OF Cons.prems] Cons.IH [OF up]
    by (simp add: Let_def del: fun_upd_apply)
qed

lemma copyHeaders_old_singleValued:
  assumes "singleValued (req_Header req)"
  shows "singleValued (req_Header (copyHeaders_old canonical req headers))"
proof -
  obtain oh h where l: "copyHeaders_old_loop canonical headers ('''', req_Header req) = (oh, h)"
    by (cases "copyHeaders_old_loop canonical headers ('''', req_Header req)")
  have "singleValued h"
    using copyHeaders_old_loop_singleValued [OF assms, of canonical headers "''''"] l by simp
  then show ?thesis
    unfolding copyHeaders_old_def l by (simp add: singleValued_upd del: fun_upd_apply)
qed

section \<open>Properties of the metadata overlay and of the handlers\<close>

subsection \<open>C7: the status mapping of the metadata read\<close>

text \<open>
  Claim C7, as amended. For every bucket and key, \<^verbatim>\<open>Get\<close> on the sidecar object returns
  the not-found error exactly when the backend answers with status 404, the distinct
  access-denied error exactly when it answers with status 403, the generic failure
  with the status for any other status of 400 or more, and for a status below 400 whose
  body fails JSON deserialization an error that is neither of these and no record. It
  yields a record exactly when the status is below 400 (2xx or not), the body can be
  read and the body is well-formed. \<open>answer\<close> is what the S3 client returns for the read.
\<close>

theorem Get_status_mapping:
  assumes "answer = forward ''GET'' (''/'' @ bucket @ ''/'' @ key @ ''.metadata'') NoBody headers []"
  shows "(Get unmarshal forward bucket key headers = Inl (MetadataNotFound bucket key)
            \<longleftrightarrow> (\<exists>resp. answer = Inr resp \<and> resp_StatusCode resp = 404)) \<and>
         ((\<exists>code. Get unmarshal forward bucket key headers = Inl (AccessDeniedReadingMetadata code))
            \<longleftrightarrow> (\<exists>resp. answer = Inr resp \<and> resp_StatusCode resp = 403)) \<and>
         (\<forall>resp. answer = Inr resp \<and> resp_StatusCode resp \<ge> 400 \<and>
              resp_StatusCode resp \<noteq> 404 \<and> resp_StatusCode resp \<noteq> 403
            \<longrightarrow> Get unmarshal forward bucket key headers
                  = Inl (FailedToGetMetadataHTTP (resp_StatusCode resp))) \<and>
         (\<forall>resp bytes. answer = Inr resp \<and> resp_StatusCode resp < 400 \<and>
              resp_Body resp = Inr bytes \<and> unmarshal bytes = None
            \<longrightarrow> Get unmarshal forward bucket key headers = Inl FailedToUnmarshalMetadata) \<and>
         (\<forall>record. Get unmarshal forward bucket key headers = Inr record
            \<longleftrightarrow> (\<exists>resp bytes. answer = Inr resp \<and> resp_StatusCode resp < 400 \<and>
                   resp_Body resp = Inr bytes \<and> unmarshal bytes = Some record))"
  unfolding assms
  by (auto simp: Get_def getMetadataKey_def Let_def split: sum.splits option.splits)

text \<open>The theorem at a backend that answers 404.\<close>

theorem Get_status_mapping_witness:
  "Get unmarshalEmptyObject (answering 404 []) ''bucket1'' ''file.txt'' []
     = Inl (MetadataNotFound ''bucket1'' ''file.txt'')"
proof -
  have a: "Inr \<lparr>resp_StatusCode = 404, resp_Header = [], resp_Body = Inr []\<rparr>
      = answering 404 [] ''GET'' (''/'' @ ''bucket1'' @ ''/'' @ ''file.txt'' @ ''.metadata'')
          NoBody [] []"
    by (simp add: answering_def)
  from Get_status_mapping [where forward = "answering 404 []" and bucket = "''bucket1''"
      and key = "''file.txt''" and headers = "[]" and unmarshal = unmarshalEmptyObject, OF a]
  show ?thesis by simp
qed

text \<open>The claim as stated fails in its last part: a response with status 300 and a
  well-formed body yields a record, and 300 is no 2xx status.\<close>

theorem Get_record_only_2xx_counterexample:
  "Get unmarshalEmptyObject (answering 300 ''{}'') ''bucket1'' ''file.txt'' [] = Inr zeroMetadata"
  by (simp add: Get_def answering_def unmarshalEmptyObject_def getMetadataKey_def)

subsection \<open>The filter and the enrichment loop\<close>

lemma FilterMetadataObjects_loop_filter:
  "FilterMetadataObjects_loop filtered contents =
     filtered @ filter (\<lambda>obj. \<not> HasSuffix (Key obj) ''.metadata'') contents"
  by (induction contents arbitrary: filtered) auto

lemma FilterMetadataObjects_filter:
  "FilterMetadataObjects contents = filter (\<lambda>obj. \<not> HasSuffix (Key obj) ''.metadata'') contents"
  by (simp add: FilterMetadataObjects_def FilterMetadataObjects_loop_filter)

lemma enrich_from_length:
  "length (enrich_from unmarshal s3 bucket headers i cs) = length cs"
proof (induction unmarshal s3 bucket headers i cs rule: enrich_from.induct)
  case (1 unmarshal s3 bucket headers i cs)
  show ?case
    by (subst enrich_from.simps) (auto simp: "1.IH" split: sum.splits)
qed

lemma enrich_from_nth:
  "j < length cs \<Longrightarrow>
   enrich_from unmarshal s3 bucket headers i cs ! j =
     (if i \<le> j
      then enriched_entry (Get unmarshal (s3 (Suc j)) bucket (Key (cs ! j)) headers) (cs ! j)
      else cs ! j)"
proof (induction unmarshal s3 bucket headers i cs rule: enrich_from.induct)
  case (1 unmarshal s3 bucket headers i cs)
  show ?case
  proof (cases "i < length cs")
    case False
    with "1.prems" show ?thesis by (subst enrich_from.simps) simp
  next
    case True
    show ?thesis
    proof (cases "Get unmarshal (s3 (Suc i)) bucket (Key (cs ! i)) headers")
      case (Inl e)
      have "enrich_from unmarshal s3 bucket headers i cs
              = enrich_from unmarshal s3 bucket headers (Suc i) cs"
        using True Inl by (subst enrich_from.simps) simp
      then show ?thesis
        using "1.IH"(1) [OF True Inl "1.prems"] Inl
        by (cases "i = j") (auto simp: enriched_entry_def)
    next
      case (Inr m)
      let ?cs' = "cs[i := (cs ! i)\<lparr>Size := meta_ContentLength m, ETag := meta_ETag m\<rparr>]"
      have e: "enrich_from unmarshal s3 bucket headers i cs
              = enrich_from unmarshal s3 bucket headers (Suc i) ?cs'"
        using True Inr by (subst enrich_from.simps) simp
      have j: "j < length ?cs'" using "1.prems" by simp
      show ?thesis
        using "1.IH"(2) [OF True Inr j] Inr e True "1.prems"
        by (cases "i = j") (auto simp: enriched_entry_def)
    qed
  qed
qed

subsection \<open>C8: the listing is enriched entry by entry\<close>

text \<open>
  Claim C8. For every parsed object listing, the entries whose key ends with the suffix
  \<^verbatim>\<open>.metadata\<close> are removed and the rest keep their relative order (the entries sent are,
  position by position, those of the filtered list). For each remaining entry, if the
  read of its sidecar record succeeds, its \<^verbatim>\<open>Size\<close> and \<^verbatim>\<open>ETag\<close> are overwritten with the
  content length and ETag of the record; on any error of that read the entry is left as
  it was; and the handler sends the listing in either case.
\<close>

theorem ListObjects_enrichment:
  assumes "s3 0 ''GET'' (''/'' @ bucket) NoBody headers queryString = Inr resp"
    and "resp_StatusCode resp < 400" and "resp_Body resp = Inr b"
    and "xmlUnmarshal b = Some listResult"
    and "kept = filter (\<lambda>obj. \<not> HasSuffix (Key obj) ''.metadata'') (list_Contents listResult)"
  shows "\<exists>sent. ListObjects xmlUnmarshal unmarshal s3 bucket headers queryString
                  = ListingXML (listResult\<lparr>list_Contents := sent\<rparr>) \<and>
           length sent = length kept \<and>
           (\<forall>i storedMeta. i < length kept \<and>
               Get unmarshal (s3 (Suc i)) bucket (Key (kept ! i)) headers = Inr storedMeta \<longrightarrow>
               sent ! i = (kept ! i)\<lparr>Size := meta_ContentLength storedMeta,
                                      ETag := meta_ETag storedMeta\<rparr>) \<and>
           (\<forall>i metaErr. i < length kept \<and>
               Get unmarshal (s3 (Suc i)) bucket (Key (kept ! i)) headers = Inl metaErr \<longrightarrow>
               sent ! i = kept ! i)"
proof -
  define sent where "sent = enrich_from unmarshal s3 bucket headers 0 kept"
  have l: "ListObjects xmlUnmarshal unmarshal s3 bucket headers queryString
             = ListingXML (listResult\<lparr>list_Contents := sent\<rparr>)"
    using assms(1-4)
    by (simp add: ListObjects_def Let_def FilterMetadataObjects_filter sent_def assms(5))
  have n: "length sent = length kept"
    by (simp add: sent_def enrich_from_length)
  have i: "sent ! i = enriched_entry (Get unmarshal (s3 (Suc i)) bucket (Key (kept ! i)) headers)
             (kept ! i)" if "i < length kept" for i
    using enrich_from_nth [OF that, of unmarshal s3 bucket headers 0] by (simp add: sent_def)
  from l n i show ?thesis
    by (auto simp: enriched_entry_def)
qed

text \<open>The theorem at a listing of \<^verbatim>\<open>file.txt\<close>, its sidecar record and \<^verbatim>\<open>other.bin\<close>, where
  the metadata read succeeds for the first and answers 404 for the other: two entries
  are sent, the first with the size of its record, the second as the backend listed
  it.\<close>

theorem ListObjects_enrichment_witness:
  "\<exists>sent. ListObjects exampleXmlUnmarshal unmarshalEmptyObject exampleBackend ''bucket1'' [] []
             = ListingXML (exampleListing\<lparr>list_Contents := sent\<rparr>) \<and>
          length sent = 2 \<and>
          sent ! 0 = \<lparr>Key = ''file.txt'', LastModified = ''t1'', ETag = [], Size = 0,
                      StorageClass = ''STANDARD''\<rparr> \<and>
          sent ! 1 = \<lparr>Key = ''other.bin'', LastModified = ''t3'', ETag = ''raw3'', Size = 7,
                      StorageClass = ''STANDARD''\<rparr>"
proof -
  have a: "exampleBackend 0 ''GET'' (''/'' @ ''bucket1'') NoBody [] []
      = Inr \<lparr>resp_StatusCode = 200, resp_Header = [], resp_Body = Inr ''listing''\<rparr>"
    by (simp add: exampleBackend_def answering_def)
  have k: "[\<lparr>Key = ''file.txt'', LastModified = ''t1'', ETag = ''raw1'', Size = 99,
              StorageClass = ''STANDARD''\<rparr>,
            \<lparr>Key = ''other.bin'', LastModified = ''t3'', ETag = ''raw3'', Size = 7,
              StorageClass = ''STANDARD''\<rparr>]
      = filter (\<lambda>obj. \<not> HasSuffix (Key obj) ''.metadata'') (list_Contents exampleListing)"
    by (simp add: exampleListing_def HasSuffix_def)
  have g0: "Get unmarshalEmptyObject (exampleBackend (Suc 0)) ''bucket1'' ''file.txt'' []
      = Inr zeroMetadata"
    by (simp add: Get_def exampleBackend_def answering_def unmarshalEmptyObject_def
          getMetadataKey_def)
  have g1: "Get unmarshalEmptyObject (exampleBackend (Suc 1)) ''bucket1'' ''other.bin'' []
      = Inl (MetadataNotFound ''bucket1'' ''other.bin'')"
    by (simp add: Get_def exampleBackend_def answering_def getMetadataKey_def)
  from ListObjects_enrichment [where ?s3.0 = exampleBackend and bucket = "''bucket1''"
      and headers = "[]" and queryString = "[]" and b = "''listing''"
      and xmlUnmarshal = exampleXmlUnmarshal and unmarshal = unmarshalEmptyObject, OF a _ _ _ k]
  obtain sent where s: "ListObjects exampleXmlUnmarshal unmarshalEmptyObject exampleBackend
        ''bucket1'' [] [] = ListingXML (exampleListing\<lparr>list_Contents := sent\<rparr>)"
      "length sent = 2"
      "\<forall>i storedMeta. i < 2 \<and>
         Get unmarshalEmptyObject (exampleBackend (Suc i)) ''bucket1''
           (Key ([\<lparr>Key = ''file.txt'', LastModified = ''t1'', ETag = ''raw1'', Size = 99,
              StorageClass = ''STANDARD''\<rparr>,
            \<lparr>Key = ''other.bin'', LastModified = ''t3'', ETag = ''raw3'', Size = 7,
              StorageClass = ''STANDARD''\<rparr>] ! i)) [] = Inr storedMeta \<longrightarrow>
         sent ! i = ([\<lparr>Key = ''file.txt'', LastModified = ''t1'', ETag = ''raw1'', Size = 99,
              StorageClass = ''STANDARD''\<rparr>,
            \<lparr>Key = ''other.bin'', LastModified = ''t3'', ETag = ''raw3'', Size = 7,
              StorageClass = ''STANDARD''\<rparr>] ! i)\<lparr>Size := meta_ContentLength storedMeta,
                                      ETag := meta_ETag storedMeta\<rparr>"
      "\<forall>i metaErr. i < 2 \<and>
         Get unmarshalEmptyObject (exampleBackend (Suc i)) ''bucket1''
           (Key ([\<lparr>Key = ''file.txt'', LastModified = ''t1'', ETag = ''raw1'', Size = 99,
              StorageClass = ''STANDARD''\<rparr>,
            \<lparr>Key = ''other.bin'', LastModified = ''t3'', ETag = ''raw3'', Size = 7,
              StorageClass = ''STANDARD''\<rparr>] ! i)) [] = Inl metaErr \<longrightarrow>
         sent ! i = [\<lparr>Key = ''file.txt'', LastModified = ''t1'', ETag = ''raw1'', Size = 99,
              StorageClass = ''STANDARD''\<rparr>,
            \<lparr>Key = ''other.bin'', LastModified = ''t3'', ETag = ''raw3'', Size = 7,
              StorageClass = ''STANDARD''\<rparr>] ! i"
    by (auto simp: exampleXmlUnmarshal_def)
  from s(3) g0 have e0: "sent ! 0 = \<lparr>Key = ''file.txt'', LastModified = ''t1'', ETag = [], Size = 0,
                      StorageClass = ''STANDARD''\<rparr>"
    by (auto simp: zeroMetadata_def)
  from s(4) g1 have e1: "sent ! 1 = \<lparr>Key = ''other.bin'', LastModified = ''t3'', ETag = ''raw3'',
                      Size = 7, StorageClass = ''STANDARD''\<rparr>"
    by auto
  from s(1,2) e0 e1 show ?thesis by blast
qed

subsection \<open>C10: what \<^verbatim>\<open>PutObject\<close> tells the client\<close>



end
